theory Spec2Isabelle
  imports
    Main
    "HOL-Library.Multiset"
    "HOL-Library.AList"
    "HOL-Library.List_Lexorder"
    "HOL-Library.Char_ord"
    "HOL-Library.Word"
begin

section \<open>The policy engine of the minion (minion/engine.go)\<close>

text \<open>
  \<^verbatim>\<open>engine.go\<close> reconciles three tables of the minion's database with a compiled
  stitch specification. This theory embeds its functions (\<open>updatePolicy\<close>,
  \<open>toDBPlacements\<close>, \<open>makeConnectionPlacements\<close>, \<open>updatePlacements\<close>,
  \<open>updateConnections\<close>, \<open>queryContainers\<close>, \<open>updateContainers\<close>) and proves
  properties of them.

  The only arithmetic of the file is the \<^verbatim>\<open>p++\<close> of the port loop, so the ports are
  Go's \<^verbatim>\<open>int\<close> as the machine has it: a signed word of 64 bits (\<open>64 word\<close>, read by
  \<open>sint\<close>), whose \<open>+\<close> wraps around. The other integers of the file (the IDs of the
  stitch containers, the scores) are only compared, and are \<open>int\<close>. Go strings are
  \<open>string\<close>, compared bytewise. A Go map that is
  only read is an association list holding its entries in the order in which
  \<^verbatim>\<open>range\<close> visits them.
\<close>

subsection \<open>The types of package stitch\<close>

record stitch_Connection =
  From :: string
  To :: string
  MinPort :: "64 word"
  MaxPort :: "64 word"

text \<open>The rule of a stitch placement; \<^verbatim>\<open>MachineAttributes\<close> is a \<^verbatim>\<open>map[string]string\<close>.\<close>

record stitch_Rule =
  Exclusive :: bool
  OtherLabels :: "string list"
  MachineAttributes :: "(string \<times> string) list"

record stitch_Placement =
  TargetLabel :: string
  Rule :: stitch_Rule

record stitch_Container =
  ID :: int
  Command :: "string list"
  Image :: string
  Env :: "(string \<times> string) list"

text \<open>
  A compiled specification, as the four queries \<open>engine.go\<close> makes of it answer.
  \<^verbatim>\<open>QueryLabels\<close> is a \<^verbatim>\<open>map[string][]int\<close> from a label to the IDs of its containers.
\<close>

record Stitch =
  QueryConnections :: "stitch_Connection list"
  QueryPlacements :: "stitch_Placement list"
  QueryContainers :: "stitch_Container list"
  QueryLabels :: "(string \<times> int list) list"

subsection \<open>The types of package db\<close>

text \<open>
  Modelled from the spec: the role of a minion, the enumeration \<open>{Master, Worker}\<close>
  (package db is not among the sources). \<open>updatePolicy\<close> only compares it with
  \<open>Master\<close>.
\<close>

datatype Role = Master | Worker

datatype PlacementRule =
    LabelRule string bool
  | MachineRule bool string string
  | PortRule "64 word"

text \<open>
  \<open>LabelRule OtherLabel Exclusive\<close>, \<open>MachineRule Exclusive Attribute Value\<close>,
  \<open>PortRule Port\<close>. Every row of the database carries the \<open>ID\<close> under which the
  database stores it, next to the fields \<open>engine.go\<close> reads and writes.
\<close>

record db_Connection =
  ID :: nat
  From :: string
  To :: string
  MinPort :: "64 word"
  MaxPort :: "64 word"

record db_Placement =
  ID :: nat
  TargetLabel :: string
  Rule :: PlacementRule

record db_Container =
  ID :: nat
  Command :: "string list"
  Image :: string
  Env :: "(string \<times> string) list"
  Labels :: "string list"

text \<open>
  Modelled from the spec: the view (package db is not among the sources). It offers,
  per kind of row, \<open>selectAll\<close> (the rows as an ordered sequence), \<open>insert\<close> (a new,
  uncommitted row handle owned by the caller until committed), \<open>commit\<close> (makes a
  row's current field values visible) and \<open>remove\<close> (deletes by value identity).
  A handle is a row with a fresh \<open>ID\<close> and zero fields; \<open>commit\<close> stores the row
  under its \<open>ID\<close>. The rule of a placement handle, nil in Go, stands here as
  \<open>PortRule 0\<close>: \<open>updatePlacements\<close> overwrites it before the handle is committed. The only observable behaviour of the engine is the calls it
  issues against the view, so the view records them in \<open>calls\<close>, each with the
  table and the \<open>ID\<close> of its row.
\<close>

datatype table = Connections | Placements | Containers

datatype call = InsertCall table nat | CommitCall table nat | RemoveCall table nat

record Database =
  ConnectionTable :: "db_Connection list"
  PlacementTable :: "db_Placement list"
  ContainerTable :: "db_Container list"
  nextID :: nat
  calls :: "call list"

definition commitRow :: "('r \<Rightarrow> nat) \<Rightarrow> 'r \<Rightarrow> 'r list \<Rightarrow> 'r list" where
  "commitRow rid r t =
     (if rid r \<in> rid ` set t then map (\<lambda>x. if rid x = rid r then r else x) t else t @ [r])"

definition removeRow :: "'r \<Rightarrow> 'r list \<Rightarrow> 'r list" where
  "removeRow r t = filter (\<lambda>x. x \<noteq> r) t"

definition SelectFromConnection :: "Database \<Rightarrow> db_Connection list" where
  "SelectFromConnection view = ConnectionTable view"

definition SelectFromPlacement :: "Database \<Rightarrow> db_Placement list" where
  "SelectFromPlacement view = PlacementTable view"

definition SelectFromContainer :: "Database \<Rightarrow> db_Container list" where
  "SelectFromContainer view = ContainerTable view"

definition InsertConnection :: "Database \<Rightarrow> db_Connection \<times> Database" where
  "InsertConnection view =
     (\<lparr>db_Connection.ID = nextID view, db_Connection.From = [], db_Connection.To = [],
        db_Connection.MinPort = 0, db_Connection.MaxPort = 0\<rparr>,
      view\<lparr>nextID := Suc (nextID view),
           calls := calls view @ [InsertCall Connections (nextID view)]\<rparr>)"

definition InsertPlacement :: "Database \<Rightarrow> db_Placement \<times> Database" where
  "InsertPlacement view =
     (\<lparr>db_Placement.ID = nextID view, db_Placement.TargetLabel = [],
        db_Placement.Rule = PortRule 0\<rparr>,
      view\<lparr>nextID := Suc (nextID view),
           calls := calls view @ [InsertCall Placements (nextID view)]\<rparr>)"

definition InsertContainer :: "Database \<Rightarrow> db_Container \<times> Database" where
  "InsertContainer view =
     (\<lparr>db_Container.ID = nextID view, db_Container.Command = [], db_Container.Image = [],
        db_Container.Env = [], db_Container.Labels = []\<rparr>,
      view\<lparr>nextID := Suc (nextID view),
           calls := calls view @ [InsertCall Containers (nextID view)]\<rparr>)"

definition CommitConnection :: "db_Connection \<Rightarrow> Database \<Rightarrow> Database" where
  "CommitConnection r view =
     view\<lparr>ConnectionTable := commitRow db_Connection.ID r (ConnectionTable view),
          calls := calls view @ [CommitCall Connections (db_Connection.ID r)]\<rparr>"

definition CommitPlacement :: "db_Placement \<Rightarrow> Database \<Rightarrow> Database" where
  "CommitPlacement r view =
     view\<lparr>PlacementTable := commitRow db_Placement.ID r (PlacementTable view),
          calls := calls view @ [CommitCall Placements (db_Placement.ID r)]\<rparr>"

definition CommitContainer :: "db_Container \<Rightarrow> Database \<Rightarrow> Database" where
  "CommitContainer r view =
     view\<lparr>ContainerTable := commitRow db_Container.ID r (ContainerTable view),
          calls := calls view @ [CommitCall Containers (db_Container.ID r)]\<rparr>"

definition RemoveConnection :: "db_Connection \<Rightarrow> Database \<Rightarrow> Database" where
  "RemoveConnection r view =
     view\<lparr>ConnectionTable := removeRow r (ConnectionTable view),
          calls := calls view @ [RemoveCall Connections (db_Connection.ID r)]\<rparr>"

definition RemovePlacement :: "db_Placement \<Rightarrow> Database \<Rightarrow> Database" where
  "RemovePlacement r view =
     view\<lparr>PlacementTable := removeRow r (PlacementTable view),
          calls := calls view @ [RemoveCall Placements (db_Placement.ID r)]\<rparr>"

definition RemoveContainer :: "db_Container \<Rightarrow> Database \<Rightarrow> Database" where
  "RemoveContainer r view =
     view\<lparr>ContainerTable := removeRow r (ContainerTable view),
          calls := calls view @ [RemoveCall Containers (db_Container.ID r)]\<rparr>"

subsection \<open>What engine.go takes from outside\<close>

text \<open>
  Packages stitch and join are not among the sources, and Go leaves open the order in
  which \<^verbatim>\<open>range\<close> enumerates a map. All of it is a parameter of the model:
  \<^item> \<open>New\<close> is the compiler \<^verbatim>\<open>stitch.New\<close>; \<open>Inl\<close> carries its error;
  \<^item> \<open>PublicInternetLabel\<close> is the constant \<^verbatim>\<open>stitch.PublicInternetLabel\<close>;
  \<^item> \<open>HashJoinConnection\<close> and \<open>HashJoinPlacement\<close> are \<^verbatim>\<open>join.HashJoin\<close> at the two
    types \<open>engine.go\<close> calls it at; the left key of the first is \<open>None\<close> where the
    code passes \<^verbatim>\<open>nil\<close> (the elements are their own keys); \<open>Join\<close> is \<^verbatim>\<open>join.Join\<close>;
  \<^item> \<open>rangePlacementSet\<close> and \<open>rangeContainers\<close> are the orders in which the two
    maps built inside \<open>engine.go\<close> are enumerated.
\<close>

type_synonym ('a, 'b) joined = "('a \<times> 'b) list \<times> 'a list \<times> 'b list"

record externals =
  New :: "string \<Rightarrow> string + Stitch"
  PublicInternetLabel :: string
  HashJoinConnection ::
    "stitch_Connection list \<Rightarrow> db_Connection list \<Rightarrow>
     (stitch_Connection \<Rightarrow> stitch_Connection) option \<Rightarrow>
     (db_Connection \<Rightarrow> stitch_Connection) \<Rightarrow>
     (stitch_Connection, db_Connection) joined"
  HashJoinPlacement ::
    "db_Placement list \<Rightarrow> db_Placement list \<Rightarrow>
     (db_Placement \<Rightarrow> string \<times> PlacementRule) \<Rightarrow>
     (db_Placement \<Rightarrow> string \<times> PlacementRule) \<Rightarrow>
     (db_Placement, db_Placement) joined"
  Join ::
    "db_Container list \<Rightarrow> db_Container list \<Rightarrow>
     (db_Container \<Rightarrow> db_Container \<Rightarrow> int) \<Rightarrow>
     (db_Container, db_Container) joined"
  rangePlacementSet :: "db_Placement list \<Rightarrow> db_Placement list"
  rangeContainers :: "(int \<times> db_Container) list \<Rightarrow> (int \<times> db_Container) list"

text \<open>
  \<^verbatim>\<open>range\<close> over a map visits every entry exactly once, in an order Go does not
  specify: an enumeration is any function that permutes the entries.
\<close>

definition rangeOrder :: "('a list \<Rightarrow> 'a list) \<Rightarrow> bool" where
  "rangeOrder f = (\<forall>xs. mset (f xs) = mset xs)"

subsection \<open>toDBPlacements\<close>

text \<open>
  \<^verbatim>\<open>placementSet\<close> is a \<^verbatim>\<open>map[db.Placement]struct{}\<close>: the list of its keys, and
  \<^verbatim>\<open>placementSet[placement] = struct{}{}\<close> adds a key that is not yet there.
\<close>

definition setKey :: "'a \<Rightarrow> 'a list \<Rightarrow> 'a list" where
  "setKey k m = (if k \<in> set m then m else m @ [k])"

definition labelPlacements :: "stitch_Placement \<Rightarrow> db_Placement list \<Rightarrow> db_Placement list" where
  "labelPlacements stitchP placementSet =
     (let rule = stitch_Placement.Rule stitchP in
      fold (\<lambda>label.
              setKey \<lparr>db_Placement.ID = 0,
                      db_Placement.TargetLabel = stitch_Placement.TargetLabel stitchP,
                      db_Placement.Rule = LabelRule label (Exclusive rule)\<rparr>)
           (OtherLabels rule) placementSet)"

definition machinePlacements :: "stitch_Placement \<Rightarrow> db_Placement list \<Rightarrow> db_Placement list" where
  "machinePlacements stitchP placementSet =
     (let rule = stitch_Placement.Rule stitchP in
      fold (\<lambda>(attr, val) m.
              if val = [] then m
              else setKey \<lparr>db_Placement.ID = 0,
                           db_Placement.TargetLabel = stitch_Placement.TargetLabel stitchP,
                           db_Placement.Rule = MachineRule (Exclusive rule) attr val\<rparr> m)
           (MachineAttributes rule) placementSet)"

definition placementSet :: "stitch_Placement list \<Rightarrow> db_Placement list" where
  "placementSet stitchPlacements =
     fold (\<lambda>stitchP m. machinePlacements stitchP (labelPlacements stitchP m))
          stitchPlacements []"

definition toDBPlacements :: "externals \<Rightarrow> stitch_Placement list \<Rightarrow> db_Placement list" where
  "toDBPlacements ext stitchPlacements =
     rangePlacementSet ext (placementSet stitchPlacements)"

subsection \<open>makeConnectionPlacements\<close>

text \<open>
  The loop \<^verbatim>\<open>for p := conn.MinPort; p <= conn.MaxPort; p++\<close>. The comparison is
  that of signed integers and \<^verbatim>\<open>p++\<close> wraps around, so the loop does not end when
  \<^verbatim>\<open>MaxPort\<close> is the largest integer: a run that does not return is \<open>None\<close>.
\<close>

partial_function (option) portLoop ::
  "string \<Rightarrow> 64 word \<Rightarrow> 64 word \<Rightarrow> db_Placement list \<Rightarrow> db_Placement list option" where
  "portLoop target p maxPort dbPlacements =
     (if sint p \<le> sint maxPort
      then portLoop target (p + 1) maxPort
             (dbPlacements @
                [\<lparr>db_Placement.ID = 0, db_Placement.TargetLabel = target,
                  db_Placement.Rule = PortRule p\<rparr>])
      else Some dbPlacements)"

text \<open>The loop over \<^verbatim>\<open>conns\<close>.\<close>

fun connectionLoop ::
  "externals \<Rightarrow> db_Connection list \<Rightarrow> db_Placement list \<Rightarrow> db_Placement list option" where
  "connectionLoop ext [] dbPlacements = Some dbPlacements"
| "connectionLoop ext (conn # conns) dbPlacements =
     (if db_Connection.From conn = PublicInternetLabel ext
      then (case portLoop (db_Connection.To conn) (db_Connection.MinPort conn)
                   (db_Connection.MaxPort conn) dbPlacements of
              None \<Rightarrow> None
            | Some dbPlacements' \<Rightarrow> connectionLoop ext conns dbPlacements')
      else connectionLoop ext conns dbPlacements)"

definition makeConnectionPlacements ::
  "externals \<Rightarrow> db_Connection list \<Rightarrow> db_Placement list option" where
  "makeConnectionPlacements ext conns = connectionLoop ext conns []"

subsection \<open>updatePlacements\<close>

text \<open>The closure \<^verbatim>\<open>key\<close>: the pair of the target label and the rule.\<close>

definition key :: "db_Placement \<Rightarrow> string \<times> PlacementRule" where
  "key pVal = (db_Placement.TargetLabel pVal, db_Placement.Rule pVal)"

text \<open>The body of the loop over \<^verbatim>\<open>addSet\<close>.\<close>

definition addPlacement :: "db_Placement \<Rightarrow> Database \<Rightarrow> Database" where
  "addPlacement toAdd view =
     (let (newPlacement, view') = InsertPlacement view
      in CommitPlacement
           (newPlacement\<lparr>db_Placement.TargetLabel := db_Placement.TargetLabel toAdd,
                         db_Placement.Rule := db_Placement.Rule toAdd\<rparr>) view')"

text \<open>\<open>updatePlacements\<close> returns when \<open>makeConnectionPlacements\<close> does.\<close>

definition updatePlacements :: "externals \<Rightarrow> Database \<Rightarrow> Stitch \<Rightarrow> Database option" where
  "updatePlacements ext view spec =
     (let stitchPlacements = toDBPlacements ext (QueryPlacements spec)
      in case makeConnectionPlacements ext (SelectFromConnection view) of
           None \<Rightarrow> None
         | Some connPlacements \<Rightarrow>
             (let (pairs, addSet, removeSet) =
                    HashJoinPlacement ext (stitchPlacements @ connPlacements)
                      (SelectFromPlacement view) key key;
                  view1 = fold addPlacement addSet view
              in Some (fold RemovePlacement removeSet view1)))"

subsection \<open>updateConnections\<close>

definition dbcKey :: "db_Connection \<Rightarrow> stitch_Connection" where
  "dbcKey c =
     \<lparr>stitch_Connection.From = db_Connection.From c,
      stitch_Connection.To = db_Connection.To c,
      stitch_Connection.MinPort = db_Connection.MinPort c,
      stitch_Connection.MaxPort = db_Connection.MaxPort c\<rparr>"

text \<open>
  The bodies of the second loop (a lonely stitch connection is paired with a new row)
  and of the third (the four fields are overwritten, the row committed).
\<close>

definition pairWithNewConnection ::
  "stitch_Connection \<Rightarrow> (stitch_Connection \<times> db_Connection) list \<times> Database \<Rightarrow>
   (stitch_Connection \<times> db_Connection) list \<times> Database" where
  "pairWithNewConnection stitchc acc =
     (case acc of (pairs, view) \<Rightarrow>
        (let (row, view') = InsertConnection view in (pairs @ [(stitchc, row)], view')))"

definition writeConnection :: "stitch_Connection \<Rightarrow> db_Connection \<Rightarrow> db_Connection" where
  "writeConnection stitchc dbc =
     dbc\<lparr>db_Connection.From := stitch_Connection.From stitchc,
         db_Connection.To := stitch_Connection.To stitchc,
         db_Connection.MinPort := stitch_Connection.MinPort stitchc,
         db_Connection.MaxPort := stitch_Connection.MaxPort stitchc\<rparr>"

definition commitConnectionPair :: "stitch_Connection \<times> db_Connection \<Rightarrow> Database \<Rightarrow> Database" where
  "commitConnectionPair pair view =
     (case pair of (stitchc, dbc) \<Rightarrow> CommitConnection (writeConnection stitchc dbc) view)"

definition updateConnections :: "externals \<Rightarrow> Database \<Rightarrow> Stitch \<Rightarrow> Database" where
  "updateConnections ext view spec =
     (let scs = QueryConnections spec;
          vcs = SelectFromConnection view;
          (pairs, stitchs, dbcs) = HashJoinConnection ext scs vcs None dbcKey;
          view1 = fold RemoveConnection dbcs view;
          (pairs', view2) = fold pairWithNewConnection stitchs (pairs, view1)
      in fold commitConnectionPair pairs' view2)"

subsection \<open>queryContainers\<close>

text \<open>
  \<^verbatim>\<open>containers\<close> is a \<^verbatim>\<open>map[int]*db.Container\<close>; every pointer in it is allocated by
  the first loop and held by one key only, so the map is an association list of
  the containers themselves. \<^verbatim>\<open>containers[id].Labels\<close> dereferences a nil pointer when
  \<^verbatim>\<open>id\<close> is not a key: the run-time panic is the error of the model.
\<close>

datatype error = NilPointerDereference

fun appendLabel ::
  "string \<Rightarrow> int list \<Rightarrow> (int \<times> db_Container) list \<Rightarrow> error + (int \<times> db_Container) list" where
  "appendLabel label [] containers = Inr containers"
| "appendLabel label (i # ids) containers =
     (case map_of containers i of
        None \<Rightarrow> Inl NilPointerDereference
      | Some c \<Rightarrow>
          appendLabel label ids
            (AList.update i (c\<lparr>Labels := Labels c @ [label]\<rparr>) containers))"

fun appendLabels ::
  "(string \<times> int list) list \<Rightarrow> (int \<times> db_Container) list \<Rightarrow>
   error + (int \<times> db_Container) list" where
  "appendLabels [] containers = Inr containers"
| "appendLabels ((label, ids) # rest) containers =
     (case appendLabel label ids containers of
        Inl e \<Rightarrow> Inl e
      | Inr containers' \<Rightarrow> appendLabels rest containers')"

definition queryContainers :: "externals \<Rightarrow> Stitch \<Rightarrow> error + db_Container list" where
  "queryContainers ext spec =
     (let containers =
            fold (\<lambda>c. AList.update (stitch_Container.ID c)
                         \<lparr>db_Container.ID = 0,
                          db_Container.Command = stitch_Container.Command c,
                          db_Container.Image = stitch_Container.Image c,
                          db_Container.Env = stitch_Container.Env c,
                          db_Container.Labels = []\<rparr>)
                 (QueryContainers spec) []
      in case appendLabels (QueryLabels spec) containers of
           Inl e \<Rightarrow> Inl e
         | Inr containers' \<Rightarrow> Inr (map snd (rangeContainers ext containers')))"

subsection \<open>updateContainers\<close>

text \<open>
  Modelled from the spec: the three helpers of package util (not among the sources).
  Command sequences are compared element-wise, Env mappings are equal when they have
  the same keys and values, and the cost is the sequence edit distance between the
  label sequences, over insertions, deletions and substitutions of unit cost, a label
  being one token.
\<close>

fun StrSliceEqual :: "string list \<Rightarrow> string list \<Rightarrow> bool" where
  "StrSliceEqual [] [] = True"
| "StrSliceEqual (x # xs) (y # ys) = (x = y \<and> StrSliceEqual xs ys)"
| "StrSliceEqual _ _ = False"

definition StrStrMapEqual :: "(string \<times> string) list \<Rightarrow> (string \<times> string) list \<Rightarrow> bool" where
  "StrStrMapEqual x y = list_all (\<lambda>k. map_of x k = map_of y k) (map fst x @ map fst y)"

fun EditDistance :: "'a list \<Rightarrow> 'a list \<Rightarrow> nat" where
  "EditDistance [] b = length b"
| "EditDistance (x # a) [] = Suc (length a)"
| "EditDistance (x # a) (y # b) =
     min (min (EditDistance a (y # b) + 1) (EditDistance (x # a) b + 1))
         (EditDistance a b + (if x = y then 0 else 1))"

text \<open>
  The spec's words for the cost, as edit scripts: a script rewrites the first
  sequence into the second from left to right, and each insertion, deletion and
  substitution in it costs one.
\<close>

datatype 'a edit = Insertion 'a | Deletion | Substitution 'a | Keep

fun applyEdits :: "'a edit list \<Rightarrow> 'a list \<Rightarrow> 'a list option" where
  "applyEdits [] [] = Some []"
| "applyEdits [] (x # xs) = None"
| "applyEdits (Insertion a # es) xs = map_option ((#) a) (applyEdits es xs)"
| "applyEdits (Deletion # es) (x # xs) = applyEdits es xs"
| "applyEdits (Substitution a # es) (x # xs) = map_option ((#) a) (applyEdits es xs)"
| "applyEdits (Keep # es) (x # xs) = map_option ((#) x) (applyEdits es xs)"
| "applyEdits (e # es) [] = None"

definition editCost :: "'a edit list \<Rightarrow> nat" where
  "editCost es = length (filter (\<lambda>e. e \<noteq> Keep) es)"

text \<open>The closure \<^verbatim>\<open>score\<close> of \<open>updateContainers\<close>.\<close>

definition score :: "db_Container \<Rightarrow> db_Container \<Rightarrow> int" where
  "score left right =
     (if db_Container.Image left \<noteq> db_Container.Image right
         \<or> \<not> StrSliceEqual (db_Container.Command left) (db_Container.Command right)
         \<or> \<not> StrStrMapEqual (db_Container.Env left) (db_Container.Env right)
      then - 1
      else int (EditDistance (Labels left) (Labels right)))"

text \<open>
  The bodies of the second loop (a new container is paired with a new row) and of
  the third. \<^verbatim>\<open>sort.Sort(sort.StringSlice(dbc.Labels))\<close> sorts the labels by Go's
  string order, which compares bytewise.
\<close>

definition pairWithNewContainer ::
  "db_Container \<Rightarrow> (db_Container \<times> db_Container) list \<times> Database \<Rightarrow>
   (db_Container \<times> db_Container) list \<times> Database" where
  "pairWithNewContainer new acc =
     (case acc of (pairs, view) \<Rightarrow>
        (let (row, view') = InsertContainer view in (pairs @ [(new, row)], view')))"

definition writeContainer :: "db_Container \<Rightarrow> db_Container \<Rightarrow> db_Container" where
  "writeContainer newc dbc =
     dbc\<lparr>Labels := sort (Labels newc),
         db_Container.Command := db_Container.Command newc,
         db_Container.Image := db_Container.Image newc,
         db_Container.Env := db_Container.Env newc\<rparr>"

definition commitContainerPair :: "db_Container \<times> db_Container \<Rightarrow> Database \<Rightarrow> Database" where
  "commitContainerPair pair view =
     (case pair of (newc, dbc) \<Rightarrow> CommitContainer (writeContainer newc dbc) view)"

definition updateContainers :: "externals \<Rightarrow> Database \<Rightarrow> Stitch \<Rightarrow> error + Database" where
  "updateContainers ext view spec =
     (case queryContainers ext spec of
        Inl e \<Rightarrow> Inl e
      | Inr desired \<Rightarrow>
          (let (pairs, news, dbcs) = Join ext desired (SelectFromContainer view) score;
               view1 = fold RemoveContainer dbcs view;
               (pairs', view2) = fold pairWithNewContainer news (pairs, view1)
           in Inr (fold commitContainerPair pairs' view2)))"

subsection \<open>updatePolicy\<close>

text \<open>
  A specification that does not compile is logged and the function returns; the
  result of the model is the view the caller is left with, or the panic of
  \<open>queryContainers\<close>, and \<open>None\<close> when \<open>updatePlacements\<close> does not return.
\<close>

definition updatePolicy ::
  "externals \<Rightarrow> Database \<Rightarrow> Role \<Rightarrow> string \<Rightarrow> (error + Database) option" where
  "updatePolicy ext view role spec =
     (case New ext spec of
        Inl err \<Rightarrow> Some (Inr view)
      | Inr compiled \<Rightarrow>
          (let view1 = updateConnections ext view compiled
           in if role = Master
              then (case updatePlacements ext view1 compiled of
                      None \<Rightarrow> None
                    | Some view2 \<Rightarrow> Some (updateContainers ext view2 compiled))
              else Some (Inr view1)))"

subsection \<open>The contracts of package join\<close>

text \<open>
  Modelled from the spec: the contract of \<^verbatim>\<open>join.HashJoin\<close> (the spec's EqualityJoin;
  package join is not among the sources). Every left element whose key equals some
  right element's key is paired with exactly one such right element, each element
  takes part in at most one pair, no element is left unmatched when a counterpart
  of the same key is, and all remaining elements are returned as unmatched.
\<close>

definition EqualityJoin ::
  "'a list \<Rightarrow> 'b list \<Rightarrow> ('a \<Rightarrow> 'k) \<Rightarrow> ('b \<Rightarrow> 'k) \<Rightarrow> ('a, 'b) joined \<Rightarrow> bool" where
  "EqualityJoin ls rs keyLeft keyRight res =
     (case res of (pairs, unmatchedLeft, unmatchedRight) \<Rightarrow>
        mset (map fst pairs) + mset unmatchedLeft = mset ls
      \<and> mset (map snd pairs) + mset unmatchedRight = mset rs
      \<and> list_all (\<lambda>(l, r). keyLeft l = keyRight r) pairs
      \<and> list_all (\<lambda>l. list_all (\<lambda>r. keyLeft l \<noteq> keyRight r) unmatchedRight) unmatchedLeft)"

text \<open>
  Modelled from the spec: an equality join that meets the contract, taking for each
  left element in turn the first right element of its key that is still free.
\<close>

fun HashJoin :: "'a list \<Rightarrow> 'b list \<Rightarrow> ('a \<Rightarrow> 'k) \<Rightarrow> ('b \<Rightarrow> 'k) \<Rightarrow> ('a, 'b) joined" where
  "HashJoin [] rs keyLeft keyRight = ([], [], rs)"
| "HashJoin (l # ls) rs keyLeft keyRight =
     (case find (\<lambda>r. keyRight r = keyLeft l) rs of
        None \<Rightarrow>
          (case HashJoin ls rs keyLeft keyRight of
             (pairs, lonelyLefts, lonelyRights) \<Rightarrow> (pairs, l # lonelyLefts, lonelyRights))
      | Some r \<Rightarrow>
          (case HashJoin ls (remove1 r rs) keyLeft keyRight of
             (pairs, lonelyLefts, lonelyRights) \<Rightarrow> ((l, r) # pairs, lonelyLefts, lonelyRights)))"

text \<open>
  Modelled from the spec: the contract of \<^verbatim>\<open>join.Join\<close> (the spec's ScoredMatch). The
  score of a pair is a cost, or negative for an incompatible pair. \<open>pairings\<close> lists
  every way of pairing left elements with right ones, each element in at most one
  pair. The result is a pairing of compatible pairs that no such pairing exceeds in
  the number of its pairs, and none of as many pairs undercuts in summed cost.
\<close>

fun picks :: "'b list \<Rightarrow> ('b \<times> 'b list) list" where
  "picks [] = []"
| "picks (r # rs) = (r, rs) # map (\<lambda>(x, rest). (x, r # rest)) (picks rs)"

fun pairings :: "'a list \<Rightarrow> 'b list \<Rightarrow> ('a, 'b) joined list" where
  "pairings [] rs = [([], [], rs)]"
| "pairings (l # ls) rs =
     concat (map (\<lambda>(r, rest).
                    map (\<lambda>(pairs, lonelyLefts, lonelyRights).
                           ((l, r) # pairs, lonelyLefts, lonelyRights))
                        (pairings ls rest))
                 (picks rs))
     @ map (\<lambda>(pairs, lonelyLefts, lonelyRights). (pairs, l # lonelyLefts, lonelyRights))
           (pairings ls rs)"

definition compatible :: "('a \<Rightarrow> 'b \<Rightarrow> int) \<Rightarrow> ('a \<times> 'b) list \<Rightarrow> bool" where
  "compatible sc pairs = list_all (\<lambda>(l, r). 0 \<le> sc l r) pairs"

definition totalCost :: "('a \<Rightarrow> 'b \<Rightarrow> int) \<Rightarrow> ('a \<times> 'b) list \<Rightarrow> int" where
  "totalCost sc pairs = sum_list (map (\<lambda>(l, r). sc l r) pairs)"

definition ScoredMatch ::
  "'a list \<Rightarrow> 'b list \<Rightarrow> ('a \<Rightarrow> 'b \<Rightarrow> int) \<Rightarrow> ('a, 'b) joined \<Rightarrow> bool" where
  "ScoredMatch ls rs sc res =
     (case res of (pairs, unmatchedLeft, unmatchedRight) \<Rightarrow>
        mset (map fst pairs) + mset unmatchedLeft = mset ls
      \<and> mset (map snd pairs) + mset unmatchedRight = mset rs
      \<and> compatible sc pairs
      \<and> list_all (\<lambda>c. compatible sc (fst c) \<longrightarrow>
                        length (fst c) < length pairs
                      \<or> (length (fst c) = length pairs
                           \<and> totalCost sc pairs \<le> totalCost sc (fst c)))
                  (pairings ls rs))"

text \<open>
  Modelled from the spec: a scored match that meets the contract, the first best
  pairing in the order of \<open>pairings\<close>.
\<close>

definition better :: "('a \<Rightarrow> 'b \<Rightarrow> int) \<Rightarrow> ('a, 'b) joined \<Rightarrow> ('a, 'b) joined \<Rightarrow> bool" where
  "better sc c d =
     (length (fst d) < length (fst c)
      \<or> (length (fst d) = length (fst c) \<and> totalCost sc (fst c) < totalCost sc (fst d)))"

fun best :: "('a \<Rightarrow> 'b \<Rightarrow> int) \<Rightarrow> ('a, 'b) joined \<Rightarrow> ('a, 'b) joined list \<Rightarrow> ('a, 'b) joined" where
  "best sc c [] = c"
| "best sc c (d # ds) = best sc (if better sc d c then d else c) ds"

definition ScoredJoin :: "'a list \<Rightarrow> 'b list \<Rightarrow> ('a \<Rightarrow> 'b \<Rightarrow> int) \<Rightarrow> ('a, 'b) joined" where
  "ScoredJoin ls rs sc =
     best sc ([], ls, rs) (filter (\<lambda>c. compatible sc (fst c)) (pairings ls rs))"

text \<open>
  The externals the examples below run with: the two joins above, maps enumerated in
  the order given, and a compiler that is handed in.
\<close>

definition externalsWith ::
  "(string \<Rightarrow> string + Stitch) \<Rightarrow> string \<Rightarrow> (db_Placement list \<Rightarrow> db_Placement list) \<Rightarrow>
   ((int \<times> db_Container) list \<Rightarrow> (int \<times> db_Container) list) \<Rightarrow> externals" where
  "externalsWith compile public rp rc =
     \<lparr>New = compile,
      PublicInternetLabel = public,
      HashJoinConnection =
        (\<lambda>ls rs keyLeft keyRight.
           HashJoin ls rs (case keyLeft of None \<Rightarrow> (\<lambda>x. x) | Some k \<Rightarrow> k) keyRight),
      HashJoinPlacement = HashJoin,
      Join = ScoredJoin,
      rangePlacementSet = rp,
      rangeContainers = rc\<rparr>"

subsection \<open>Views\<close>

text \<open>
  In a view every row of a table has an \<open>ID\<close> of its own, and the handle of the next
  insert is fresh.
\<close>

definition validTable :: "('r \<Rightarrow> nat) \<Rightarrow> nat \<Rightarrow> 'r list \<Rightarrow> bool" where
  "validTable rid n t = (distinct (map rid t) \<and> list_all (\<lambda>r. rid r < n) t)"

definition validView :: "Database \<Rightarrow> bool" where
  "validView view =
     (validTable db_Connection.ID (nextID view) (ConnectionTable view)
      \<and> validTable db_Placement.ID (nextID view) (PlacementTable view)
      \<and> validTable db_Container.ID (nextID view) (ContainerTable view))"

subsection \<open>Auxiliary notions of the proofs\<close>

text \<open>A placement that is not a machine rule of empty value.\<close>

definition materialized :: "db_Placement \<Rightarrow> bool" where
  "materialized p =
     (case db_Placement.Rule p of MachineRule e a v \<Rightarrow> v \<noteq> [] | _ \<Rightarrow> True)"

text \<open>The handle \<open>InsertConnection\<close> returns: a row of zero fields under a fresh \<open>ID\<close>.\<close>

definition handleConnection :: "nat \<Rightarrow> db_Connection" where
  "handleConnection i = \<lparr>db_Connection.ID = i, db_Connection.From = [], db_Connection.To = [],
        db_Connection.MinPort = 0, db_Connection.MaxPort = 0\<rparr>"

text \<open>The row committed for a desired connection under the \<open>ID\<close> of its handle.\<close>

definition newConnection :: "stitch_Connection \<Rightarrow> nat \<Rightarrow> db_Connection" where
  "newConnection s i = \<lparr>db_Connection.ID = i, db_Connection.From = stitch_Connection.From s,
      db_Connection.To = stitch_Connection.To s, db_Connection.MinPort = stitch_Connection.MinPort s,
      db_Connection.MaxPort = stitch_Connection.MaxPort s\<rparr>"

text \<open>The table a call is issued against.\<close>

fun callTable :: "call \<Rightarrow> table" where
  "callTable (InsertCall t i) = t"
| "callTable (CommitCall t i) = t"
| "callTable (RemoveCall t i) = t"

text \<open>The row committed for a desired placement under the \<open>ID\<close> of its handle.\<close>

definition newPlacement :: "db_Placement \<Rightarrow> nat \<Rightarrow> db_Placement" where
  "newPlacement toAdd i =
     \<lparr>db_Placement.ID = i, db_Placement.TargetLabel = db_Placement.TargetLabel toAdd,
      db_Placement.Rule = db_Placement.Rule toAdd\<rparr>"

text \<open>
  The list \<open>updatePlacements\<close> hands to the join as its left side, when
  \<open>makeConnectionPlacements\<close> returns one.
\<close>

definition desiredPlacements ::
  "externals \<Rightarrow> Database \<Rightarrow> Stitch \<Rightarrow> db_Placement list option" where
  "desiredPlacements ext view spec =
     map_option (\<lambda>connPlacements. toDBPlacements ext (QueryPlacements spec) @ connPlacements)
       (makeConnectionPlacements ext (SelectFromConnection view))"

text \<open>
  No public connection of the list has the largest integer for its \<open>MaxPort\<close>.
\<close>

definition portsBounded :: "externals \<Rightarrow> db_Connection list \<Rightarrow> bool" where
  "portsBounded ext conns =
     list_all (\<lambda>conn. db_Connection.From conn = PublicInternetLabel ext
                       \<longrightarrow> sint (db_Connection.MaxPort conn) < 2 ^ 63 - 1) conns"

text \<open>
  One port rule for every port from \<open>MinPort\<close> to \<open>MaxPort\<close> of every public connection
  of the list, in order.
\<close>

definition portPlacements :: "externals \<Rightarrow> db_Connection list \<Rightarrow> db_Placement list" where
  "portPlacements ext conns =
     concat (map (\<lambda>conn.
        if db_Connection.From conn = PublicInternetLabel ext
        then map (\<lambda>i. \<lparr>db_Placement.ID = 0,
                         db_Placement.TargetLabel = db_Connection.To conn,
                         db_Placement.Rule = PortRule (word_of_int i)\<rparr>)
                 [sint (db_Connection.MinPort conn)..sint (db_Connection.MaxPort conn)]
        else []) conns)"

text \<open>
  The placements a view and a specification ask for, and the view \<open>updatePlacements\<close>
  leaves when it is handed them.
\<close>

definition derivedPlacements :: "externals \<Rightarrow> Database \<Rightarrow> Stitch \<Rightarrow> db_Placement list" where
  "derivedPlacements ext view spec =
     toDBPlacements ext (QueryPlacements spec) @ portPlacements ext (ConnectionTable view)"


text \<open>The handle \<open>InsertContainer\<close> returns: a row of zero fields under a fresh \<open>ID\<close>.\<close>

definition handleContainer :: "nat \<Rightarrow> db_Container" where
  "handleContainer i =
     \<lparr>db_Container.ID = i, db_Container.Command = [], db_Container.Image = [],
      db_Container.Env = [], db_Container.Labels = []\<rparr>"

text \<open>
  The row committed for a desired container under an \<open>ID\<close>: its command, image and
  environment, and its labels sorted.
\<close>

definition newContainer :: "db_Container \<Rightarrow> nat \<Rightarrow> db_Container" where
  "newContainer newc i =
     \<lparr>db_Container.ID = i, db_Container.Command = db_Container.Command newc,
      db_Container.Image = db_Container.Image newc, db_Container.Env = db_Container.Env newc,
      db_Container.Labels = sort (db_Container.Labels newc)\<rparr>"

text \<open>The row a table holds for an \<open>ID\<close> after the rows \<open>us\<close> were committed over it.\<close>

definition committed :: "('r \<Rightarrow> nat) \<Rightarrow> 'r list \<Rightarrow> 'r \<Rightarrow> 'r" where
  "committed rid us x = (case find (\<lambda>u. rid u = rid x) us of Some u \<Rightarrow> u | None \<Rightarrow> x)"




subsection \<open>Example inputs\<close>

definition noSpec :: "string \<Rightarrow> string + Stitch" where
  "noSpec text = Inl ''Invalid spec.''"

definition examplePlacements :: "stitch_Placement list" where
  "examplePlacements =
     [\<lparr>stitch_Placement.TargetLabel = ''web'',
       stitch_Placement.Rule =
         \<lparr>Exclusive = True, OtherLabels = [''db''],
          MachineAttributes = [(''region'', []), (''size'', ''m4.large'')]\<rparr>\<rparr>]"

definition exampleExternals :: externals where
  "exampleExternals = externalsWith noSpec ''public'' (\<lambda>xs. xs) (\<lambda>xs. xs)"

definition connAB :: stitch_Connection where
  "connAB = \<lparr>stitch_Connection.From = ''a'', stitch_Connection.To = ''b'',
             stitch_Connection.MinPort = 80, stitch_Connection.MaxPort = 80\<rparr>"

definition connWeb :: stitch_Connection where
  "connWeb = \<lparr>stitch_Connection.From = ''public'', stitch_Connection.To = ''web'',
             stitch_Connection.MinPort = 80, stitch_Connection.MaxPort = 82\<rparr>"

definition rowAB :: db_Connection where
  "rowAB = \<lparr>db_Connection.ID = 1, db_Connection.From = ''a'', db_Connection.To = ''b'',
            db_Connection.MinPort = 80, db_Connection.MaxPort = 80\<rparr>"

definition rowAC :: db_Connection where
  "rowAC = \<lparr>db_Connection.ID = 2, db_Connection.From = ''a'', db_Connection.To = ''c'',
            db_Connection.MinPort = 22, db_Connection.MaxPort = 22\<rparr>"

definition exampleSpec :: Stitch where
  "exampleSpec = \<lparr>QueryConnections = [connAB, connWeb], QueryPlacements = [],
                   QueryContainers = [], QueryLabels = []\<rparr>"

definition exampleView :: Database where
  "exampleView = \<lparr>ConnectionTable = [rowAB, rowAC], PlacementTable = [], ContainerTable = [],
                   nextID = 3, calls = []\<rparr>"

definition compileExample :: "string \<Rightarrow> string + Stitch" where
  "compileExample text = Inr exampleSpec"

definition compilingExternals :: externals where
  "compilingExternals = externalsWith compileExample ''public'' (\<lambda>xs. xs) (\<lambda>xs. xs)"

definition workerView :: Database where
  "workerView =
     \<lparr>ConnectionTable = [],
      PlacementTable =
        [\<lparr>db_Placement.ID = 1, db_Placement.TargetLabel = ''web'',
          db_Placement.Rule = LabelRule ''db'' True\<rparr>],
      ContainerTable =
        [\<lparr>db_Container.ID = 2, db_Container.Command = [''run''], db_Container.Image = ''nginx'',
          db_Container.Env = [], db_Container.Labels = [''web'']\<rparr>],
      nextID = 3, calls = []\<rparr>"




definition overlapSpec :: Stitch where
  "overlapSpec =
     \<lparr>QueryConnections =
        [\<lparr>stitch_Connection.From = ''public'', stitch_Connection.To = ''web'',
          stitch_Connection.MinPort = 80, stitch_Connection.MaxPort = 81\<rparr>,
         \<lparr>stitch_Connection.From = ''public'', stitch_Connection.To = ''web'',
          stitch_Connection.MinPort = 81, stitch_Connection.MaxPort = 82\<rparr>],
      QueryPlacements = [], QueryContainers = [], QueryLabels = []\<rparr>"

definition compileOverlap :: "string \<Rightarrow> string + Stitch" where
  "compileOverlap text = Inr overlapSpec"

definition overlapExternals :: externals where
  "overlapExternals = externalsWith compileOverlap ''public'' (\<lambda>xs. xs) (\<lambda>xs. xs)"

definition emptyView :: Database where
  "emptyView = \<lparr>ConnectionTable = [], PlacementTable = [], ContainerTable = [],
                 nextID = 1, calls = []\<rparr>"




definition nginxAB :: db_Container where
  "nginxAB = \<lparr>db_Container.ID = 7, db_Container.Command = [], db_Container.Image = ''nginx'',
               db_Container.Env = [], db_Container.Labels = [''a'', ''b'']\<rparr>"

definition nginxAC :: db_Container where
  "nginxAC = \<lparr>db_Container.ID = 0, db_Container.Command = [], db_Container.Image = ''nginx'',
               db_Container.Env = [], db_Container.Labels = [''a'', ''c'']\<rparr>"

definition redisAB :: db_Container where
  "redisAB = \<lparr>db_Container.ID = 0, db_Container.Command = [], db_Container.Image = ''redis'',
               db_Container.Env = [], db_Container.Labels = [''a'', ''b'']\<rparr>"


definition mixedSpec :: Stitch where
  "mixedSpec =
     \<lparr>QueryConnections = [], QueryPlacements = [],
      QueryContainers =
        [\<lparr>stitch_Container.ID = 1, stitch_Container.Command = [''serve''],
          stitch_Container.Image = ''nginx'', stitch_Container.Env = [(''port'', ''80'')]\<rparr>,
         \<lparr>stitch_Container.ID = 2, stitch_Container.Command = [''redis-server''],
          stitch_Container.Image = ''redis'', stitch_Container.Env = []\<rparr>],
      QueryLabels = [(''web'', [1]), (''cache'', [2]), (''front'', [1])]\<rparr>"

definition compileMixed :: "string \<Rightarrow> string + Stitch" where
  "compileMixed text = Inr mixedSpec"

definition mixedExternals :: externals where
  "mixedExternals = externalsWith compileMixed ''public'' (\<lambda>xs. xs) (\<lambda>xs. xs)"

definition mixedNginx :: "nat \<Rightarrow> string list \<Rightarrow> db_Container" where
  "mixedNginx i labels =
     \<lparr>db_Container.ID = i, db_Container.Command = [''serve''], db_Container.Image = ''nginx'',
      db_Container.Env = [(''port'', ''80'')], db_Container.Labels = labels\<rparr>"

definition mixedRedis :: "nat \<Rightarrow> db_Container" where
  "mixedRedis i =
     \<lparr>db_Container.ID = i, db_Container.Command = [''redis-server''],
      db_Container.Image = ''redis'', db_Container.Env = [], db_Container.Labels = [''cache'']\<rparr>"

definition mixedMysql :: db_Container where
  "mixedMysql =
     \<lparr>db_Container.ID = 4, db_Container.Command = [''mysqld''], db_Container.Image = ''mysql'',
      db_Container.Env = [], db_Container.Labels = [''db'']\<rparr>"

definition mixedView :: Database where
  "mixedView = \<lparr>ConnectionTable = [], PlacementTable = [],
                 ContainerTable = [mixedNginx 3 [''web''], mixedMysql],
                 nextID = 5, calls = []\<rparr>"

definition twinSpec :: Stitch where
  "twinSpec =
     \<lparr>QueryConnections = [], QueryPlacements = [],
      QueryContainers =
        [\<lparr>stitch_Container.ID = 1, stitch_Container.Command = [],
          stitch_Container.Image = ''nginx'', stitch_Container.Env = []\<rparr>,
         \<lparr>stitch_Container.ID = 2, stitch_Container.Command = [],
          stitch_Container.Image = ''nginx'', stitch_Container.Env = []\<rparr>],
      QueryLabels = [(''c'', [2]), (''b'', [1, 2]), (''a'', [1])]\<rparr>"



definition twinRow :: "nat \<Rightarrow> string list \<Rightarrow> db_Container" where
  "twinRow i labels =
     \<lparr>db_Container.ID = i, db_Container.Command = [], db_Container.Image = ''nginx'',
      db_Container.Env = [], db_Container.Labels = labels\<rparr>"

definition twinView :: "string list \<Rightarrow> string list \<Rightarrow> call list \<Rightarrow> Database" where
  "twinView labels1 labels2 cs =
     \<lparr>ConnectionTable = [], PlacementTable = [],
      ContainerTable = [twinRow 5 labels1, twinRow 6 labels2], nextID = 7, calls = cs\<rparr>"


section \<open>Properties\<close>

subsection \<open>Derived placements\<close>

lemma set_setKey: "set (setKey k m) = insert k (set m)"
  by (auto simp: setKey_def)

lemma distinct_setKey: "distinct m \<Longrightarrow> distinct (setKey k m)"
  by (simp add: setKey_def)

lemma rangeOrder_set: "rangeOrder f \<Longrightarrow> set (f xs) = set xs"
  unfolding rangeOrder_def by (metis set_mset_mset)

lemma rangeOrder_rev: "rangeOrder rev"
  by (simp add: rangeOrder_def)


lemma fold_list_all:
  assumes "\<And>x m. list_all P m \<Longrightarrow> list_all P (f x m)" and "list_all P m"
  shows "list_all P (fold f xs m)"
  using assms(2) by (induction xs arbitrary: m) (simp_all add: assms(1))

lemma setKey_list_all: "P k \<Longrightarrow> list_all P m \<Longrightarrow> list_all P (setKey k m)"
  by (simp add: setKey_def)

lemma labelPlacements_materialized:
  "list_all materialized m \<Longrightarrow> list_all materialized (labelPlacements stitchP m)"
  unfolding labelPlacements_def Let_def
  by (rule fold_list_all) (simp_all add: setKey_list_all materialized_def)

lemma machinePlacements_materialized:
  "list_all materialized m \<Longrightarrow> list_all materialized (machinePlacements stitchP m)"
  unfolding machinePlacements_def Let_def
  by (rule fold_list_all) (auto simp: setKey_list_all materialized_def)

lemma placementSet_materialized: "list_all materialized (placementSet sps)"
proof -
  have "list_all materialized m \<Longrightarrow>
        list_all materialized
          (fold (\<lambda>stitchP m. machinePlacements stitchP (labelPlacements stitchP m)) sps m)" for m
    by (induction sps arbitrary: m)
       (simp_all add: labelPlacements_materialized machinePlacements_materialized)
  then show ?thesis by (simp add: placementSet_def)
qed

lemma fold_distinct:
  assumes "\<And>x m. distinct m \<Longrightarrow> distinct (f x m)"
  shows "distinct m \<Longrightarrow> distinct (fold f xs m)"
  using assms by (induction xs arbitrary: m) simp_all

lemma placementSet_distinct: "distinct (placementSet sps)"
  unfolding placementSet_def
proof (rule fold_distinct)
  fix stitchP and m :: "db_Placement list"
  assume d: "distinct m"
  have "distinct (labelPlacements stitchP m)"
    unfolding labelPlacements_def Let_def
    by (rule fold_distinct) (simp_all add: distinct_setKey d)
  then show "distinct (machinePlacements stitchP (labelPlacements stitchP m))"
    unfolding machinePlacements_def Let_def
    by (intro fold_distinct) (auto simp: distinct_setKey)
qed simp

lemma toDBPlacements_distinct:
  assumes "rangeOrder (rangePlacementSet ext)"
  shows "distinct (toDBPlacements ext sps)"
  using assms placementSet_distinct [of sps]
  unfolding toDBPlacements_def rangeOrder_def by (metis mset_eq_imp_distinct_iff)

lemma placementSet_unsaved: "list_all (\<lambda>p. db_Placement.ID p = 0) (placementSet sps)"
  unfolding placementSet_def
proof (rule fold_list_all)
  fix stitchP and m :: "db_Placement list"
  assume a: "list_all (\<lambda>p. db_Placement.ID p = 0) m"
  have "list_all (\<lambda>p. db_Placement.ID p = 0) (labelPlacements stitchP m)"
    unfolding labelPlacements_def Let_def
    by (rule fold_list_all) (simp_all add: setKey_list_all a)
  then show "list_all (\<lambda>p. db_Placement.ID p = 0)
               (machinePlacements stitchP (labelPlacements stitchP m))"
    unfolding machinePlacements_def Let_def
    by (intro fold_list_all) (auto simp: setKey_list_all)
qed simp

text \<open>
  The placements derived from the placement directives hold no \<open>(TargetLabel, Rule)\<close>
  twice, in whatever order the placement set is enumerated.
\<close>

lemma toDBPlacements_distinct_keys:
  assumes "rangeOrder (rangePlacementSet ext)"
  shows "distinct (map key (toDBPlacements ext sps))"
proof -
  have "inj_on key (set (toDBPlacements ext sps))"
  proof (rule inj_onI)
    fix p q
    assume "p \<in> set (toDBPlacements ext sps)" "q \<in> set (toDBPlacements ext sps)"
      and k: "key p = key q"
    then have "p \<in> set (placementSet sps)" "q \<in> set (placementSet sps)"
      using rangeOrder_set [OF assms] by (simp_all add: toDBPlacements_def)
    then have "db_Placement.ID p = 0" "db_Placement.ID q = 0"
      using placementSet_unsaved [of sps] by (simp_all add: list_all_iff)
    then show "p = q" using k by (cases p, cases q) (simp add: key_def)
  qed
  then show ?thesis
    using toDBPlacements_distinct [OF assms] by (simp add: distinct_map)
qed

text \<open>
  C9. The placements \<open>toDBPlacements\<close> derives from the placement directives of a
  specification never contain a machine rule whose value is the empty string,
  whatever the order in which the placement set is enumerated.
\<close>

theorem toDBPlacements_no_empty_machine_value:
  assumes "rangeOrder (rangePlacementSet ext)"
  shows "\<forall>p \<in> set (toDBPlacements ext stitchPlacements).
           \<forall>exclusive attribute. db_Placement.Rule p \<noteq> MachineRule exclusive attribute []"
proof -
  have "set (toDBPlacements ext stitchPlacements) = set (placementSet stitchPlacements)"
    using assms by (simp add: toDBPlacements_def rangeOrder_set)
  moreover have "\<forall>p \<in> set (placementSet stitchPlacements). materialized p"
    using placementSet_materialized [of stitchPlacements] by (simp add: list_all_iff)
  ultimately show ?thesis
    by (auto simp: materialized_def)
qed

lemma toDBPlacements_example:
  "toDBPlacements (externalsWith noSpec ''public'' rev (\<lambda>xs. xs)) examplePlacements =
     [\<lparr>db_Placement.ID = 0, db_Placement.TargetLabel = ''web'',
       db_Placement.Rule = MachineRule True ''size'' ''m4.large''\<rparr>,
      \<lparr>db_Placement.ID = 0, db_Placement.TargetLabel = ''web'',
       db_Placement.Rule = LabelRule ''db'' True\<rparr>]"
  by (simp add: toDBPlacements_def externalsWith_def examplePlacements_def placementSet_def
        labelPlacements_def machinePlacements_def setKey_def)

theorem toDBPlacements_no_empty_machine_value_witness:
  "rangeOrder (rangePlacementSet (externalsWith noSpec ''public'' rev (\<lambda>xs. xs)))
   \<and> length (toDBPlacements (externalsWith noSpec ''public'' rev (\<lambda>xs. xs)) examplePlacements) = 2
   \<and> list_all (\<lambda>p. db_Placement.Rule p \<noteq> MachineRule True ''region'' [])
        (toDBPlacements (externalsWith noSpec ''public'' rev (\<lambda>xs. xs)) examplePlacements)"
proof -
  have h: "rangeOrder (rangePlacementSet (externalsWith noSpec ''public'' rev (\<lambda>xs. xs)))"
    by (simp add: externalsWith_def rangeOrder_rev)
  have "list_all (\<lambda>p. db_Placement.Rule p \<noteq> MachineRule True ''region'' [])
          (toDBPlacements (externalsWith noSpec ''public'' rev (\<lambda>xs. xs)) examplePlacements)"
    using toDBPlacements_no_empty_machine_value [OF h, of examplePlacements]
    unfolding list_all_iff by blast
  then show ?thesis
    using h by (simp add: toDBPlacements_example)
qed

lemma sint_max: "sint (p :: 64 word) \<le> 2 ^ 63 - 1"
  using sint_lt [of p] by simp

lemma sint_succ: "sint (p :: 64 word) < 2 ^ 63 - 1 \<Longrightarrow> sint (p + 1) = sint p + 1"
  using sint_ge [of p]
  by (simp add: sint_word_ariths signed_take_bit_int_eq_self)

text \<open>The port loop returns only when \<open>MaxPort\<close> is not the largest integer.\<close>

lemma portLoop_returned:
  assumes "portLoop target p maxPort acc = Some y"
  shows "sint maxPort \<noteq> 2 ^ 63 - 1"
proof (rule portLoop.raw_induct
         [where P = "\<lambda>target p maxPort acc y. sint maxPort \<noteq> 2 ^ 63 - 1", OF _ assms])
  fix f :: "string \<Rightarrow> 64 word \<Rightarrow> 64 word \<Rightarrow> db_Placement list \<Rightarrow> db_Placement list option"
    and target p maxPort dbPlacements y
  assume ih: "\<And>target p maxPort dbPlacements y.
                f target p maxPort dbPlacements = Some y \<Longrightarrow> sint maxPort \<noteq> 2 ^ 63 - 1"
    and body: "(if sint p \<le> sint maxPort
                then f target (p + 1) maxPort
                       (dbPlacements @
                          [\<lparr>db_Placement.ID = 0, db_Placement.TargetLabel = target,
                            db_Placement.Rule = PortRule p\<rparr>])
                else Some dbPlacements) = Some y"
  show "sint maxPort \<noteq> 2 ^ 63 - 1"
  proof (cases "sint p \<le> sint maxPort")
    case True
    then show ?thesis using body ih by simp
  next
    case False
    then show ?thesis using sint_max [of p] by simp
  qed
qed

lemma portLoop_never:
  "sint maxPort = 2 ^ 63 - 1 \<Longrightarrow> portLoop target p maxPort acc = None"
  using portLoop_returned [of target p maxPort acc]
  by (cases "portLoop target p maxPort acc") auto

lemma portLoop_upto:
  assumes "sint maxPort < 2 ^ 63 - 1"
  shows "portLoop target p maxPort acc =
     Some (acc @ map (\<lambda>i. \<lparr>db_Placement.ID = 0, db_Placement.TargetLabel = target,
                             db_Placement.Rule = PortRule (word_of_int i)\<rparr>)
                     [sint p..sint maxPort])"
proof (induction "nat (sint maxPort + 1 - sint p)" arbitrary: p acc)
  case 0
  then have "\<not> sint p \<le> sint maxPort" by simp
  then show ?case by (subst portLoop.simps) simp
next
  case (Suc n)
  then have le: "sint p \<le> sint maxPort" by simp
  then have s: "sint (p + 1) = sint p + 1" using assms by (intro sint_succ) simp
  have "n = nat (sint maxPort + 1 - sint (p + 1))" using Suc(2) s by simp
  note ih = Suc(1) [OF this]
  show ?case
    using le by (subst portLoop.simps) (simp add: ih s upto_rec1 [of "sint p" "sint maxPort"])
qed

lemma connectionLoop_ports:
  "portsBounded ext conns \<Longrightarrow>
   connectionLoop ext conns acc = Some (acc @ portPlacements ext conns)"
  by (induction conns arbitrary: acc)
     (simp_all add: portsBounded_def portPlacements_def portLoop_upto)

lemma makeConnectionPlacements_returns:
  "portsBounded ext conns \<Longrightarrow>
   makeConnectionPlacements ext conns = Some (portPlacements ext conns)"
  by (simp add: makeConnectionPlacements_def connectionLoop_ports)

lemma connectionLoop_never:
  "\<not> portsBounded ext conns \<Longrightarrow> connectionLoop ext conns acc = None"
proof (induction conns arbitrary: acc)
  case Nil
  then show ?case by (simp add: portsBounded_def)
next
  case (Cons conn conns)
  show ?case
  proof (cases "db_Connection.From conn = PublicInternetLabel ext")
    case False
    then show ?thesis using Cons by (simp add: portsBounded_def)
  next
    case True
    show ?thesis
    proof (cases "sint (db_Connection.MaxPort conn) < 2 ^ 63 - 1")
      case False
      then have "sint (db_Connection.MaxPort conn) = 2 ^ 63 - 1"
        using sint_max [of "db_Connection.MaxPort conn"] by simp
      then show ?thesis using True by (simp add: portLoop_never)
    next
      case b: True
      then have "\<not> portsBounded ext conns" using Cons(2) True by (simp add: portsBounded_def)
      then show ?thesis using Cons(1) True by (simp add: portLoop_upto [OF b])
    qed
  qed
qed

text \<open>\<open>makeConnectionPlacements\<close> returns exactly on the lists of bounded ports.\<close>

lemma makeConnectionPlacements_returns_iff:
  "(\<exists>ps. makeConnectionPlacements ext conns = Some ps) \<longleftrightarrow> portsBounded ext conns"
proof (cases "portsBounded ext conns")
  case True
  then show ?thesis by (simp add: makeConnectionPlacements_returns)
next
  case False
  then show ?thesis by (simp add: makeConnectionPlacements_def connectionLoop_never)
qed

lemma upto_80_82: "[80..82] = [80, 81, 82]"
  by (simp add: upto_rec1)

text \<open>
  C5. For a list of connections none of whose public connections has the largest
  integer for its \<open>MaxPort\<close>, \<open>makeConnectionPlacements\<close> returns, connection by
  connection and in order, one port rule for every port from \<open>MinPort\<close> to \<open>MaxPort\<close>
  that targets the \<open>To\<close> label when the \<open>From\<close> label is the public internet label,
  and none otherwise (\<open>[i..j]\<close> lists each integer from \<open>i\<close> to \<open>j\<close> once). A public
  connection to \<open>web\<close> on the ports 80 to 82 yields the three distinct port rules of
  80, 81 and 82.
\<close>

theorem makeConnectionPlacements_ports:
  assumes "list_all (\<lambda>conn. db_Connection.From conn = PublicInternetLabel ext
                            \<longrightarrow> sint (db_Connection.MaxPort conn) < 2 ^ 63 - 1) conns"
  shows "makeConnectionPlacements ext conns =
     Some (concat (map (\<lambda>conn.
        if db_Connection.From conn = PublicInternetLabel ext
        then map (\<lambda>i. \<lparr>db_Placement.ID = 0,
                         db_Placement.TargetLabel = db_Connection.To conn,
                         db_Placement.Rule = PortRule (word_of_int i)\<rparr>)
                 [sint (db_Connection.MinPort conn)..sint (db_Connection.MaxPort conn)]
        else []) conns))
   \<and> makeConnectionPlacements ext
        [\<lparr>db_Connection.ID = i, db_Connection.From = PublicInternetLabel ext,
          db_Connection.To = ''web'', db_Connection.MinPort = 80,
          db_Connection.MaxPort = 82\<rparr>] =
       Some [\<lparr>db_Placement.ID = 0, db_Placement.TargetLabel = ''web'',
              db_Placement.Rule = PortRule 80\<rparr>,
             \<lparr>db_Placement.ID = 0, db_Placement.TargetLabel = ''web'',
              db_Placement.Rule = PortRule 81\<rparr>,
             \<lparr>db_Placement.ID = 0, db_Placement.TargetLabel = ''web'',
              db_Placement.Rule = PortRule 82\<rparr>]
   \<and> map_option distinct
         (makeConnectionPlacements ext
            [\<lparr>db_Connection.ID = i, db_Connection.From = PublicInternetLabel ext,
              db_Connection.To = ''web'', db_Connection.MinPort = 80,
              db_Connection.MaxPort = 82\<rparr>]) = Some True"
proof -
  have "portsBounded ext conns" using assms by (simp add: portsBounded_def)
  then have "makeConnectionPlacements ext conns = Some (portPlacements ext conns)"
    by (rule makeConnectionPlacements_returns)
  moreover have "portsBounded ext
        [\<lparr>db_Connection.ID = i, db_Connection.From = PublicInternetLabel ext,
          db_Connection.To = ''web'', db_Connection.MinPort = 80,
          db_Connection.MaxPort = 82\<rparr>]"
    by (simp add: portsBounded_def)
  note makeConnectionPlacements_returns [OF this]
  ultimately show ?thesis
    by (simp add: portPlacements_def upto_80_82)
qed

theorem makeConnectionPlacements_ports_witness:
  "list_all (\<lambda>conn. db_Connection.From conn = ''public''
                     \<and> sint (db_Connection.MaxPort conn) < 2 ^ 63 - 1)
     [\<lparr>db_Connection.ID = 1, db_Connection.From = ''public'', db_Connection.To = ''web'',
       db_Connection.MinPort = 80, db_Connection.MaxPort = 82\<rparr>]
   \<and> makeConnectionPlacements exampleExternals
        [\<lparr>db_Connection.ID = 1, db_Connection.From = ''public'', db_Connection.To = ''web'',
          db_Connection.MinPort = 80, db_Connection.MaxPort = 82\<rparr>,
         \<lparr>db_Connection.ID = 2, db_Connection.From = ''a'', db_Connection.To = ''b'',
          db_Connection.MinPort = 22, db_Connection.MaxPort = 9223372036854775807\<rparr>,
         \<lparr>db_Connection.ID = 3, db_Connection.From = ''public'', db_Connection.To = ''db'',
          db_Connection.MinPort = 5, db_Connection.MaxPort = 4\<rparr>] =
       Some [\<lparr>db_Placement.ID = 0, db_Placement.TargetLabel = ''web'',
              db_Placement.Rule = PortRule 80\<rparr>,
             \<lparr>db_Placement.ID = 0, db_Placement.TargetLabel = ''web'',
              db_Placement.Rule = PortRule 81\<rparr>,
             \<lparr>db_Placement.ID = 0, db_Placement.TargetLabel = ''web'',
              db_Placement.Rule = PortRule 82\<rparr>]"
proof -
  have p: "PublicInternetLabel exampleExternals = ''public''"
    by (simp add: exampleExternals_def externalsWith_def)
  show ?thesis
    using makeConnectionPlacements_ports [of exampleExternals
        "[\<lparr>db_Connection.ID = 1, db_Connection.From = ''public'', db_Connection.To = ''web'',
           db_Connection.MinPort = 80, db_Connection.MaxPort = 82\<rparr>,
          \<lparr>db_Connection.ID = 2, db_Connection.From = ''a'', db_Connection.To = ''b'',
           db_Connection.MinPort = 22, db_Connection.MaxPort = 9223372036854775807\<rparr>,
          \<lparr>db_Connection.ID = 3, db_Connection.From = ''public'', db_Connection.To = ''db'',
           db_Connection.MinPort = 5, db_Connection.MaxPort = 4\<rparr>]" 1]
    by (simp add: p upto_80_82)
qed

text \<open>
  A public connection whose \<open>MaxPort\<close> is the largest integer: the loop counts past it
  and wraps around, and \<open>makeConnectionPlacements\<close> does not return.
\<close>

theorem makeConnectionPlacements_largest_port:
  "makeConnectionPlacements exampleExternals
     [\<lparr>db_Connection.ID = 1, db_Connection.From = ''public'', db_Connection.To = ''web'',
       db_Connection.MinPort = 9223372036854775806,
       db_Connection.MaxPort = 9223372036854775807\<rparr>] = None
   \<and> PublicInternetLabel exampleExternals = ''public''
   \<and> sint (9223372036854775806 :: 64 word) = 9223372036854775806
   \<and> sint (9223372036854775807 :: 64 word) = 9223372036854775807
   \<and> sint (9223372036854775807 + 1 :: 64 word) = - 9223372036854775808"
  by (simp add: makeConnectionPlacements_def portLoop_never exampleExternals_def
        externalsWith_def)

subsection \<open>The connection reconciler\<close>

lemma removeRow_filter:
  "filter (\<lambda>x. x \<notin> set rs) (removeRow r t) = filter (\<lambda>x. x \<notin> set (r # rs)) t"
  by (auto simp: removeRow_def intro: filter_cong)

lemma fold_RemoveConnection:
  "fold RemoveConnection rs view =
     view\<lparr>ConnectionTable := filter (\<lambda>x. x \<notin> set rs) (ConnectionTable view),
          calls := calls view @ map (\<lambda>r. RemoveCall Connections (db_Connection.ID r)) rs\<rparr>"
proof (induction rs arbitrary: view)
  case Nil
  show ?case by simp
next
  case (Cons r rs)
  have "fold RemoveConnection (r # rs) view = fold RemoveConnection rs (RemoveConnection r view)"
    by simp
  also have "\<dots> = (RemoveConnection r view)
       \<lparr>ConnectionTable := filter (\<lambda>x. x \<notin> set rs) (ConnectionTable (RemoveConnection r view)),
        calls := calls (RemoveConnection r view) @ map (\<lambda>r. RemoveCall Connections (db_Connection.ID r)) rs\<rparr>"
    by (rule Cons.IH)
  also have "\<dots> = view\<lparr>ConnectionTable := filter (\<lambda>x. x \<notin> set (r # rs)) (ConnectionTable view),
          calls := calls view @ map (\<lambda>r. RemoveCall Connections (db_Connection.ID r)) (r # rs)\<rparr>"
    by (simp add: RemoveConnection_def removeRow_filter del: set_simps)
  finally show ?case .
qed

lemma upt_plus_Cons: "[n..<n + Suc k] = n # [Suc n..<Suc n + k]"
  by (simp add: upt_rec)

lemma fold_pairWithNewConnection:
  "fold pairWithNewConnection stitchs (ps, view) =
     (ps @ zip stitchs (map handleConnection [nextID view..<nextID view + length stitchs]),
      view\<lparr>nextID := nextID view + length stitchs,
           calls := calls view @ map (InsertCall Connections)
                                   [nextID view..<nextID view + length stitchs]\<rparr>)"
proof (induction stitchs arbitrary: ps view)
  case Nil
  show ?case by simp
next
  case (Cons s stitchs)
  let ?v = "view\<lparr>nextID := Suc (nextID view),
                  calls := calls view @ [InsertCall Connections (nextID view)]\<rparr>"
  have step: "pairWithNewConnection s (ps, view) = (ps @ [(s, handleConnection (nextID view))], ?v)"
    by (simp add: pairWithNewConnection_def InsertConnection_def handleConnection_def)
  have "fold pairWithNewConnection (s # stitchs) (ps, view) =
        fold pairWithNewConnection stitchs (ps @ [(s, handleConnection (nextID view))], ?v)"
    by (simp add: step)
  also have "\<dots> = ((ps @ [(s, handleConnection (nextID view))]) @
         zip stitchs (map handleConnection [nextID ?v..<nextID ?v + length stitchs]),
      ?v\<lparr>nextID := nextID ?v + length stitchs,
           calls := calls ?v @ map (InsertCall Connections)
                                   [nextID ?v..<nextID ?v + length stitchs]\<rparr>)"
    by (rule Cons.IH)
  also have "\<dots> = (ps @ zip (s # stitchs) (map handleConnection [nextID view..<nextID view + length (s # stitchs)]),
      view\<lparr>nextID := nextID view + length (s # stitchs),
           calls := calls view @ map (InsertCall Connections)
                                   [nextID view..<nextID view + length (s # stitchs)]\<rparr>)"
    using upt_plus_Cons [of "nextID view" "length stitchs"] by simp
  finally show ?case .
qed

lemma fold_commitConnectionPair:
  "fold commitConnectionPair ps view =
     view\<lparr>ConnectionTable :=
            fold (\<lambda>(stitchc, dbc). commitRow db_Connection.ID (writeConnection stitchc dbc)) ps
                 (ConnectionTable view),
          calls := calls view @ map (\<lambda>(stitchc, dbc). CommitCall Connections (db_Connection.ID dbc)) ps\<rparr>"
proof (induction ps arbitrary: view)
  case Nil
  show ?case by simp
next
  case (Cons p ps)
  obtain s d where p: "p = (s, d)" by (cases p)
  have "fold commitConnectionPair (p # ps) view = fold commitConnectionPair ps (commitConnectionPair p view)"
    by simp
  also have "\<dots> = (commitConnectionPair p view)\<lparr>ConnectionTable :=
            fold (\<lambda>(stitchc, dbc). commitRow db_Connection.ID (writeConnection stitchc dbc)) ps
                 (ConnectionTable (commitConnectionPair p view)),
          calls := calls (commitConnectionPair p view) @ map (\<lambda>(stitchc, dbc). CommitCall Connections (db_Connection.ID dbc)) ps\<rparr>"
    by (rule Cons.IH)
  also have "\<dots> = view\<lparr>ConnectionTable :=
            fold (\<lambda>(stitchc, dbc). commitRow db_Connection.ID (writeConnection stitchc dbc)) (p # ps)
                 (ConnectionTable view),
          calls := calls view @ map (\<lambda>(stitchc, dbc). CommitCall Connections (db_Connection.ID dbc)) (p # ps)\<rparr>"
    by (simp add: p commitConnectionPair_def CommitConnection_def writeConnection_def)
  finally show ?case .
qed

text \<open>Committing rows to a table.\<close>

lemma commitRow_same:
  assumes "distinct (map rid t)" "r \<in> set t"
  shows "commitRow rid r t = t"
proof -
  have "map (\<lambda>x. if rid x = rid r then r else x) t = t"
    using assms by (intro map_idI) (auto simp: distinct_map inj_on_def)
  then show ?thesis using assms by (simp add: commitRow_def)
qed

lemma commitRow_fresh: "rid r \<notin> rid ` set t \<Longrightarrow> commitRow rid r t = t @ [r]"
  by (simp add: commitRow_def)

lemma commit_matched:
  assumes "distinct (map rid t)" "\<forall>(l, r) \<in> set ps. r \<in> set t \<and> w l r = r"
  shows "fold (\<lambda>(l, r). commitRow rid (w l r)) ps t = t"
  using assms(2) by (induction ps) (auto simp: commitRow_same assms(1))

lemma commitRow_new_rows:
  assumes "distinct (map rid rows)" "rid ` set rows \<inter> rid ` set t = {}"
  shows "fold (commitRow rid) rows t = t @ rows"
  using assms
proof (induction rows arbitrary: t)
  case Nil
  show ?case by simp
next
  case (Cons r rows)
  have "fold (commitRow rid) rows (t @ [r]) = (t @ [r]) @ rows"
    using Cons.prems by (intro Cons.IH) auto
  moreover have "commitRow rid r t = t @ [r]"
    using Cons.prems by (intro commitRow_fresh) auto
  ultimately show ?case by simp
qed

lemma commit_new:
  assumes "distinct (map (\<lambda>(l, r). rid (w l r)) ps)"
    "(\<lambda>(l, r). rid (w l r)) ` set ps \<inter> rid ` set t = {}"
  shows "fold (\<lambda>(l, r). commitRow rid (w l r)) ps t = t @ map (\<lambda>(l, r). w l r) ps"
proof -
  have "fold (\<lambda>(l, r). commitRow rid (w l r)) ps t =
        fold (commitRow rid) (map (\<lambda>(l, r). w l r) ps) t"
    by (simp add: fold_map comp_def split_def)
  also have "\<dots> = t @ map (\<lambda>(l, r). w l r) ps"
  proof (rule commitRow_new_rows)
    show "distinct (map rid (map (\<lambda>(l, r). w l r) ps))"
      using assms(1) by (simp add: comp_def split_def)
    show "rid ` set (map (\<lambda>(l, r). w l r) ps) \<inter> rid ` set t = {}"
      using assms(2) by (auto simp: split_def)
  qed
  finally show ?thesis .
qed

lemma validTable_distinct: "validTable rid n t \<Longrightarrow> distinct t"
  by (auto simp: validTable_def distinct_map)

lemma map_zip_handles:
  "length xs = length ys \<Longrightarrow> map (\<lambda>(l, r). f l r) (zip xs (map g ys)) = map (\<lambda>(l, i). f l (g i)) (zip xs ys)"
  by (induction xs ys rule: list_induct2) simp_all

lemma map_zip_right:
  "length xs = length ys \<Longrightarrow> map (\<lambda>(l, i). f i) (zip xs ys) = map f ys"
  by (induction xs ys rule: list_induct2) simp_all

text \<open>What a join's partition of the right side means for a table without repetition.\<close>

lemma partition_distinct:
  assumes "mset xs + mset ys = mset zs" "distinct zs"
  shows "distinct xs" "distinct ys" "set xs \<inter> set ys = {}" "set xs \<union> set ys = set zs"
proof -
  have m: "mset (xs @ ys) = mset zs" using assms(1) by simp
  then have d: "distinct (xs @ ys)" using assms(2) by (metis mset_eq_imp_distinct_iff)
  show "distinct xs" "distinct ys" "set xs \<inter> set ys = {}" using d by auto
  show "set xs \<union> set ys = set zs" using m by (metis mset_eq_setD set_append)
qed

lemma partition_filter:
  assumes "mset xs + mset ys = mset zs" "distinct zs"
  shows "mset (filter (\<lambda>x. x \<notin> set ys) zs) = mset xs"
proof -
  have dis: "set xs \<inter> set ys = {}" using partition_distinct(3) [OF assms] .
  have "mset (filter (\<lambda>x. x \<notin> set ys) zs) = filter_mset (\<lambda>x. x \<notin> set ys) (mset xs + mset ys)"
    by (simp add: assms(1) flip: mset_filter)
  also have "\<dots> = filter_mset (\<lambda>x. x \<notin> set ys) (mset xs) + filter_mset (\<lambda>x. x \<notin> set ys) (mset ys)"
    by simp
  also have "filter_mset (\<lambda>x. x \<notin> set ys) (mset xs) = mset xs"
    using dis by (intro filter_mset_eq_conv [THEN iffD2]) auto
  also have "filter_mset (\<lambda>x. x \<notin> set ys) (mset ys) = {#}"
    by (induction ys) auto
  finally show ?thesis by simp
qed

lemma updateConnections_result:
  assumes valid: "validView view"
    and res: "HashJoinConnection ext (QueryConnections spec) (ConnectionTable view) None dbcKey
                = (pairs, stitchs, dbcs)"
    and join: "EqualityJoin (QueryConnections spec) (ConnectionTable view) (\<lambda>c. c) dbcKey
                 (pairs, stitchs, dbcs)"
  shows "updateConnections ext view spec =
     view\<lparr>ConnectionTable :=
            filter (\<lambda>r. r \<notin> set dbcs) (ConnectionTable view)
            @ map (\<lambda>(s, i). newConnection s i)
                (zip stitchs [nextID view..<nextID view + length stitchs]),
          nextID := nextID view + length stitchs,
          calls := calls view
            @ map (\<lambda>r. RemoveCall Connections (db_Connection.ID r)) dbcs
            @ map (InsertCall Connections) [nextID view..<nextID view + length stitchs]
            @ map (\<lambda>(s, r). CommitCall Connections (db_Connection.ID r)) pairs
            @ map (CommitCall Connections) [nextID view..<nextID view + length stitchs]\<rparr>"
proof -
  let ?n = "nextID view" and ?k = "length stitchs" and ?T = "ConnectionTable view"
  let ?T1 = "filter (\<lambda>r. r \<notin> set dbcs) ?T"
  let ?new = "zip stitchs (map handleConnection [?n..<?n + ?k])"
  let ?w = "\<lambda>(stitchc, dbc). commitRow db_Connection.ID (writeConnection stitchc dbc)"
  have vt: "validTable db_Connection.ID ?n ?T" using valid by (simp add: validView_def)
  have dT: "distinct ?T" using vt by (rule validTable_distinct)
  have part: "mset (map snd pairs) + mset dbcs = mset ?T"
    and keys: "\<forall>(l, r) \<in> set pairs. l = dbcKey r"
    using join by (auto simp: EqualityJoin_def list_all_iff)
  have dT1: "distinct (map db_Connection.ID ?T1)"
    using vt by (simp add: validTable_def distinct_map_filter)
  have in_T1: "r \<in> set ?T1" if "(l, r) \<in> set pairs" for l r
  proof -
    have "r \<in> set (map snd pairs)" using that by force
    then show ?thesis
      using partition_distinct(3,4) [OF part dT] by auto
  qed
  have same: "writeConnection l r = r" if "(l, r) \<in> set pairs" for l r
    using keys that by (auto simp: writeConnection_def dbcKey_def)
  have matched: "fold ?w pairs ?T1 = ?T1"
    using dT1 in_T1 same by (intro commit_matched) auto
  have len: "length stitchs = length [?n..<?n + ?k]" by simp
  have wnew: "map (\<lambda>(l, r). writeConnection l r) ?new =
              map (\<lambda>(s, i). newConnection s i) (zip stitchs [?n..<?n + ?k])"
    unfolding map_zip_handles [OF len]
    by (simp add: writeConnection_def handleConnection_def newConnection_def)
  have idnew: "map (\<lambda>(l, r). db_Connection.ID (writeConnection l r)) ?new = [?n..<?n + ?k]"
    unfolding map_zip_handles [OF len]
    by (simp add: writeConnection_def handleConnection_def map_zip_right [OF len])
  have idnew2: "map (\<lambda>(l, r). db_Connection.ID r) ?new = [?n..<?n + ?k]"
    unfolding map_zip_handles [OF len]
    by (simp add: handleConnection_def map_zip_right [OF len])
  have below: "\<forall>r \<in> set ?T1. db_Connection.ID r < ?n"
    using vt by (auto simp: validTable_def list_all_iff)
  have fresh: "fold ?w ?new ?T1 = ?T1 @ map (\<lambda>(l, r). writeConnection l r) ?new"
  proof (rule commit_new)
    show "distinct (map (\<lambda>(l, r). db_Connection.ID (writeConnection l r)) ?new)"
      unfolding idnew by simp
    have "(\<lambda>(l, r). db_Connection.ID (writeConnection l r)) ` set ?new = set [?n..<?n + ?k]"
      using idnew by (metis set_map)
    then show "(\<lambda>(l, r). db_Connection.ID (writeConnection l r)) ` set ?new
                 \<inter> db_Connection.ID ` set ?T1 = {}"
      using below by auto
  qed
  have table: "fold ?w (pairs @ ?new) ?T1 =
        ?T1 @ map (\<lambda>(s, i). newConnection s i) (zip stitchs [?n..<?n + ?k])"
    by (simp add: matched fresh wnew)
  have cm: "map (\<lambda>(stitchc, dbc). CommitCall Connections (db_Connection.ID dbc)) ?new
              = map (CommitCall Connections) [?n..<?n + ?k]"
  proof -
    have "map (\<lambda>(stitchc, dbc). CommitCall Connections (db_Connection.ID dbc)) ?new
          = map (CommitCall Connections) (map (\<lambda>(l, r). db_Connection.ID r) ?new)"
      by (simp add: split_def comp_def)
    then show ?thesis by (simp only: idnew2)
  qed
  show ?thesis
    unfolding updateConnections_def Let_def SelectFromConnection_def res split_conv
      fold_RemoveConnection fold_pairWithNewConnection fold_commitConnectionPair
    using table cm by simp
qed

lemma dbcKey_newConnection: "dbcKey (newConnection s i) = s"
  by (cases s) (simp add: dbcKey_def newConnection_def)

text \<open>
  C6. In a valid view, and with a join that meets the contract of the equality join,
  \<open>updateConnections\<close> leaves in the connection table exactly the desired
  connections of the specification. Every row whose tuple matches no desired
  connection is removed; every desired connection that no row matches is lonely and
  gets a freshly inserted row; the rows of the pairs are committed after the four
  fields were overwritten, the matched rows where they stood (the overwrite leaves
  them as they were) and the new rows behind them. No other table changes, and the
  calls are the removes, the inserts and the commits in this order.
\<close>

theorem updateConnections_reconciles:
  assumes "validView view"
    and "HashJoinConnection ext (QueryConnections spec) (ConnectionTable view) None dbcKey
           = (pairs, stitchs, dbcs)"
    and "EqualityJoin (QueryConnections spec) (ConnectionTable view) (\<lambda>c. c) dbcKey
           (pairs, stitchs, dbcs)"
  shows "mset (map dbcKey (ConnectionTable (updateConnections ext view spec)))
           = mset (QueryConnections spec)
       \<and> (\<forall>r \<in> set (ConnectionTable view).
            dbcKey r \<notin> set (QueryConnections spec) \<longrightarrow>
              r \<in> set dbcs \<and> r \<notin> set (ConnectionTable (updateConnections ext view spec)))
       \<and> (\<forall>s \<in> set (QueryConnections spec).
            s \<notin> dbcKey ` set (ConnectionTable view) \<longrightarrow> s \<in> set stitchs)
       \<and> updateConnections ext view spec =
           view\<lparr>ConnectionTable :=
                  filter (\<lambda>r. r \<notin> set dbcs) (ConnectionTable view)
                  @ map (\<lambda>(s, i). newConnection s i)
                      (zip stitchs [nextID view..<nextID view + length stitchs]),
                nextID := nextID view + length stitchs,
                calls := calls view
                  @ map (\<lambda>r. RemoveCall Connections (db_Connection.ID r)) dbcs
                  @ map (InsertCall Connections) [nextID view..<nextID view + length stitchs]
                  @ map (\<lambda>(s, r). CommitCall Connections (db_Connection.ID r)) pairs
                  @ map (CommitCall Connections)
                      [nextID view..<nextID view + length stitchs]\<rparr>"
proof -
  let ?n = "nextID view" and ?k = "length stitchs" and ?T = "ConnectionTable view"
  note result = updateConnections_result [OF assms]
  have vt: "validTable db_Connection.ID ?n ?T" using assms(1) by (simp add: validView_def)
  have dT: "distinct ?T" using vt by (rule validTable_distinct)
  have left: "mset (map fst pairs) + mset stitchs = mset (QueryConnections spec)"
    and part: "mset (map snd pairs) + mset dbcs = mset ?T"
    and keys: "\<forall>(l, r) \<in> set pairs. l = dbcKey r"
    using assms(3) by (auto simp: EqualityJoin_def list_all_iff)
  have len: "length stitchs = length [?n..<?n + ?k]" by simp
  have table: "ConnectionTable (updateConnections ext view spec) =
      filter (\<lambda>r. r \<notin> set dbcs) ?T
      @ map (\<lambda>(s, i). newConnection s i) (zip stitchs [?n..<?n + ?k])"
    by (simp add: result)
  have kept: "mset (map dbcKey (filter (\<lambda>r. r \<notin> set dbcs) ?T)) = mset (map fst pairs)"
  proof -
    have "mset (map dbcKey (filter (\<lambda>r. r \<notin> set dbcs) ?T)) = image_mset dbcKey (mset (map snd pairs))"
      using partition_filter [OF part dT] by (metis mset_map)
    also have "\<dots> = mset (map dbcKey (map snd pairs))" by (simp only: mset_map)
    also have "map dbcKey (map snd pairs) = map fst pairs"
      using keys by (induction pairs) auto
    finally show ?thesis .
  qed
  have new: "map dbcKey (map (\<lambda>(s, i). newConnection s i) (zip stitchs [?n..<?n + ?k])) = stitchs"
  proof -
    have "map dbcKey (map (\<lambda>(s, i). newConnection s i) (zip stitchs [?n..<?n + ?k]))
            = map fst (zip stitchs [?n..<?n + ?k])"
      by (simp add: split_def comp_def dbcKey_newConnection)
    then show ?thesis by simp
  qed
  have c1: "mset (map dbcKey (ConnectionTable (updateConnections ext view spec)))
              = mset (QueryConnections spec)"
    unfolding table using kept new left by (simp flip: mset_map)
  have c2: "r \<in> set dbcs \<and> r \<notin> set (ConnectionTable (updateConnections ext view spec))"
    if r: "r \<in> set ?T" and no: "dbcKey r \<notin> set (QueryConnections spec)" for r
  proof -
    have "r \<notin> set (map snd pairs)"
    proof
      assume "r \<in> set (map snd pairs)"
      then obtain l where "(l, r) \<in> set pairs" by auto
      then have "dbcKey r \<in> set (map fst pairs)" using keys by force
      then have "dbcKey r \<in># mset (map fst pairs) + mset stitchs" by simp
      then show False using no left by (metis set_mset_mset)
    qed
    then have d: "r \<in> set dbcs"
      using partition_distinct(4) [OF part dT] r by auto
    have "db_Connection.ID r < ?n"
      using vt r by (auto simp: validTable_def list_all_iff)
    then have "r \<notin> set (map (\<lambda>(s, i). newConnection s i) (zip stitchs [?n..<?n + ?k]))"
      by (auto simp: newConnection_def dest!: set_zip_rightD)
    then show ?thesis using d by (simp add: table)
  qed
  have c3: "s \<in> set stitchs"
    if s: "s \<in> set (QueryConnections spec)" and no: "s \<notin> dbcKey ` set ?T" for s
  proof -
    have "s \<notin> set (map fst pairs)"
    proof
      assume "s \<in> set (map fst pairs)"
      then obtain r where lr: "(s, r) \<in> set pairs" by auto
      then have "r \<in> set (map snd pairs)" by force
      then have "r \<in> set ?T" using partition_distinct(4) [OF part dT] by auto
      moreover have "s = dbcKey r" using keys lr by auto
      ultimately show False using no by auto
    qed
    moreover have "s \<in># mset (map fst pairs) + mset stitchs" using s left by simp
    ultimately show ?thesis by auto
  qed
  show ?thesis using c1 c2 c3 result by blast
qed

lemma example_join:
  "HashJoinConnection exampleExternals (QueryConnections exampleSpec)
      (ConnectionTable exampleView) None dbcKey = ([(connAB, rowAB)], [connWeb], [rowAC])"
  by (simp add: exampleExternals_def externalsWith_def exampleSpec_def exampleView_def
        connAB_def connWeb_def rowAB_def rowAC_def dbcKey_def)

lemma example_valid: "validView exampleView"
  by (simp add: validView_def validTable_def exampleView_def rowAB_def rowAC_def)

lemma example_contract:
  "EqualityJoin (QueryConnections exampleSpec) (ConnectionTable exampleView) (\<lambda>c. c) dbcKey
     ([(connAB, rowAB)], [connWeb], [rowAC])"
  by (simp add: EqualityJoin_def exampleSpec_def exampleView_def
        connAB_def connWeb_def rowAB_def rowAC_def dbcKey_def)

theorem updateConnections_reconciles_witness:
  "validView exampleView
   \<and> HashJoinConnection exampleExternals (QueryConnections exampleSpec)
        (ConnectionTable exampleView) None dbcKey = ([(connAB, rowAB)], [connWeb], [rowAC])
   \<and> EqualityJoin (QueryConnections exampleSpec) (ConnectionTable exampleView) (\<lambda>c. c) dbcKey
        ([(connAB, rowAB)], [connWeb], [rowAC])
   \<and> ConnectionTable (updateConnections exampleExternals exampleView exampleSpec) =
        [rowAB, newConnection connWeb 3]
   \<and> calls (updateConnections exampleExternals exampleView exampleSpec) =
        [RemoveCall Connections 2, InsertCall Connections 3, CommitCall Connections 1,
         CommitCall Connections 3]"
proof -
  note t = updateConnections_reconciles [OF example_valid example_join example_contract]
  from t have "updateConnections exampleExternals exampleView exampleSpec =
     exampleView\<lparr>ConnectionTable :=
                  filter (\<lambda>r. r \<notin> set [rowAC]) (ConnectionTable exampleView)
                  @ map (\<lambda>(s, i). newConnection s i)
                      (zip [connWeb] [nextID exampleView..<nextID exampleView + length [connWeb]]),
                nextID := nextID exampleView + length [connWeb],
                calls := calls exampleView
                  @ map (\<lambda>r. RemoveCall Connections (db_Connection.ID r)) [rowAC]
                  @ map (InsertCall Connections) [nextID exampleView..<nextID exampleView + length [connWeb]]
                  @ map (\<lambda>(s, r). CommitCall Connections (db_Connection.ID r)) [(connAB, rowAB)]
                  @ map (CommitCall Connections)
                      [nextID exampleView..<nextID exampleView + length [connWeb]]\<rparr>"
    by blast
  then have "ConnectionTable (updateConnections exampleExternals exampleView exampleSpec) =
        [rowAB, newConnection connWeb 3]
     \<and> calls (updateConnections exampleExternals exampleView exampleSpec) =
        [RemoveCall Connections 2, InsertCall Connections 3, CommitCall Connections 1,
         CommitCall Connections 3]"
    by (simp add: exampleView_def rowAB_def rowAC_def upt_rec)
  then show ?thesis
    using example_valid example_join example_contract by simp
qed

subsection \<open>The orchestrator\<close>

lemma updateConnections_frame:
  "PlacementTable (updateConnections ext view spec) = PlacementTable view
   \<and> ContainerTable (updateConnections ext view spec) = ContainerTable view
   \<and> take (length (calls view)) (calls (updateConnections ext view spec)) = calls view
   \<and> list_all (\<lambda>c. callTable c = Connections)
        (drop (length (calls view)) (calls (updateConnections ext view spec)))"
proof -
  obtain pairs stitchs dbcs where
    res: "HashJoinConnection ext (QueryConnections spec) (ConnectionTable view) None dbcKey
            = (pairs, stitchs, dbcs)"
    by (cases "HashJoinConnection ext (QueryConnections spec) (ConnectionTable view) None dbcKey")
  show ?thesis
    unfolding updateConnections_def Let_def SelectFromConnection_def res split_conv
      fold_RemoveConnection fold_pairWithNewConnection fold_commitConnectionPair
    by (auto simp: list_all_iff split_def)
qed

text \<open>
  C4. When the specification does not compile, \<open>updatePolicy\<close> returns with the view
  as it was, whatever the role: no table, no handle and no recorded call differs, so
  no insert, commit or remove was issued against any table.
\<close>

theorem updatePolicy_invalid_spec:
  assumes "New ext spec = Inl err"
  shows "updatePolicy ext view role spec = Some (Inr view)"
  using assms by (simp add: updatePolicy_def)

theorem updatePolicy_invalid_spec_witness:
  "New exampleExternals ''(label'' = Inl ''Invalid spec.''
   \<and> updatePolicy exampleExternals exampleView Master ''(label'' = Some (Inr exampleView)
   \<and> updatePolicy exampleExternals exampleView Worker ''(label'' = Some (Inr exampleView)"
proof -
  have h: "New exampleExternals ''(label'' = Inl ''Invalid spec.''"
    by (simp add: exampleExternals_def externalsWith_def noSpec_def)
  show ?thesis
    using h updatePolicy_invalid_spec [OF h, of exampleView Master]
      updatePolicy_invalid_spec [OF h, of exampleView Worker]
    by simp
qed

text \<open>
  C3. When the specification compiles and the role is \<open>Worker\<close>, \<open>updatePolicy\<close> is
  \<open>updateConnections\<close> alone: the placement table and the container table are as
  they were, and every call issued is against the connection table. The placement
  and the container reconcilers run exactly when the role is \<open>Master\<close>.
\<close>

theorem updatePolicy_role_gating:
  assumes "New ext spec = Inr compiled"
  shows "updatePolicy ext view Worker spec = Some (Inr (updateConnections ext view compiled))
       \<and> PlacementTable (updateConnections ext view compiled) = PlacementTable view
       \<and> ContainerTable (updateConnections ext view compiled) = ContainerTable view
       \<and> take (length (calls view)) (calls (updateConnections ext view compiled)) = calls view
       \<and> list_all (\<lambda>c. callTable c = Connections)
            (drop (length (calls view)) (calls (updateConnections ext view compiled)))
       \<and> updatePolicy ext view Master spec =
            map_option (\<lambda>view2. updateContainers ext view2 compiled)
              (updatePlacements ext (updateConnections ext view compiled) compiled)
       \<and> updatePolicy ext view role spec =
            (if role = Master
             then map_option (\<lambda>view2. updateContainers ext view2 compiled)
                    (updatePlacements ext (updateConnections ext view compiled) compiled)
             else Some (Inr (updateConnections ext view compiled)))"
  using assms updateConnections_frame [of ext view compiled]
  by (simp add: updatePolicy_def map_option_case)

lemma worker_example:
  "updateConnections compilingExternals workerView exampleSpec =
     workerView\<lparr>ConnectionTable := [newConnection connAB 3, newConnection connWeb 4],
                nextID := 5,
                calls := [InsertCall Connections 3, InsertCall Connections 4,
                          CommitCall Connections 3, CommitCall Connections 4]\<rparr>"
  by (simp add: updateConnections_def compilingExternals_def externalsWith_def workerView_def
        exampleSpec_def SelectFromConnection_def pairWithNewConnection_def InsertConnection_def
        commitConnectionPair_def CommitConnection_def writeConnection_def commitRow_def
        newConnection_def connAB_def connWeb_def)

theorem updatePolicy_role_gating_witness:
  "New compilingExternals ''spec'' = Inr exampleSpec
   \<and> updatePolicy compilingExternals workerView Worker ''spec'' =
       Some (Inr (workerView\<lparr>ConnectionTable := [newConnection connAB 3, newConnection connWeb 4],
                nextID := 5,
                calls := [InsertCall Connections 3, InsertCall Connections 4,
                          CommitCall Connections 3, CommitCall Connections 4]\<rparr>))
   \<and> PlacementTable (updateConnections compilingExternals workerView exampleSpec)
       = PlacementTable workerView
   \<and> ContainerTable (updateConnections compilingExternals workerView exampleSpec)
       = ContainerTable workerView"
proof -
  have h: "New compilingExternals ''spec'' = Inr exampleSpec"
    by (simp add: compilingExternals_def externalsWith_def compileExample_def)
  show ?thesis
    using h updatePolicy_role_gating [OF h, of workerView Worker]
    by (simp add: worker_example)
qed

subsection \<open>The placement reconciler\<close>










lemma map_snd_zip_upt: "map (\<lambda>(p, i). f i) (zip xs [n..<n + length xs]) = map f [n..<n + length xs]"
  by (rule map_zip_right) simp






lemma derivedPlacements_returns:
  "portsBounded ext (ConnectionTable view) \<Longrightarrow>
   desiredPlacements ext view spec = Some (derivedPlacements ext view spec)"
  by (simp add: desiredPlacements_def derivedPlacements_def SelectFromConnection_def
        makeConnectionPlacements_returns)


lemma updatePlacements_never:
  "\<not> portsBounded ext (ConnectionTable view) \<Longrightarrow> updatePlacements ext view spec = None"
  by (simp add: updatePlacements_def SelectFromConnection_def makeConnectionPlacements_def
        connectionLoop_never)







subsection \<open>Public connections of overlapping port ranges\<close>

lemma overlap_connections:
  "updateConnections overlapExternals emptyView overlapSpec =
     emptyView
       \<lparr>ConnectionTable :=
          [\<lparr>db_Connection.ID = 1, db_Connection.From = ''public'', db_Connection.To = ''web'',
            db_Connection.MinPort = 80, db_Connection.MaxPort = 81\<rparr>,
           \<lparr>db_Connection.ID = 2, db_Connection.From = ''public'', db_Connection.To = ''web'',
            db_Connection.MinPort = 81, db_Connection.MaxPort = 82\<rparr>],
        nextID := 3,
        calls := [InsertCall Connections 1, InsertCall Connections 2,
                  CommitCall Connections 1, CommitCall Connections 2]\<rparr>"
  by (simp add: updateConnections_def overlapExternals_def externalsWith_def emptyView_def
        overlapSpec_def SelectFromConnection_def pairWithNewConnection_def InsertConnection_def
        commitConnectionPair_def CommitConnection_def writeConnection_def commitRow_def)

lemma upto_80_81: "[80..81] = [80, 81]" and upto_81_82: "[81..82] = [81, 82]"
  by (simp_all add: upto_rec1)

lemma overlap_desired:
  "desiredPlacements overlapExternals (updateConnections overlapExternals emptyView overlapSpec)
     overlapSpec =
     Some
     [\<lparr>db_Placement.ID = 0, db_Placement.TargetLabel = ''web'', db_Placement.Rule = PortRule 80\<rparr>,
      \<lparr>db_Placement.ID = 0, db_Placement.TargetLabel = ''web'', db_Placement.Rule = PortRule 81\<rparr>,
      \<lparr>db_Placement.ID = 0, db_Placement.TargetLabel = ''web'', db_Placement.Rule = PortRule 81\<rparr>,
      \<lparr>db_Placement.ID = 0, db_Placement.TargetLabel = ''web'', db_Placement.Rule = PortRule 82\<rparr>]"
  unfolding overlap_connections
  by (simp add: desiredPlacements_def toDBPlacements_def overlapExternals_def externalsWith_def
        overlapSpec_def emptyView_def placementSet_def makeConnectionPlacements_def
        SelectFromConnection_def portLoop_upto upto_80_81 upto_81_82)

lemma overlap_placements:
  "updatePlacements overlapExternals
      (updateConnections overlapExternals emptyView overlapSpec) overlapSpec =
     Some ((updateConnections overlapExternals emptyView overlapSpec)
       \<lparr>PlacementTable :=
          [\<lparr>db_Placement.ID = 3, db_Placement.TargetLabel = ''web'',
            db_Placement.Rule = PortRule 80\<rparr>,
           \<lparr>db_Placement.ID = 4, db_Placement.TargetLabel = ''web'',
            db_Placement.Rule = PortRule 81\<rparr>,
           \<lparr>db_Placement.ID = 5, db_Placement.TargetLabel = ''web'',
            db_Placement.Rule = PortRule 81\<rparr>,
           \<lparr>db_Placement.ID = 6, db_Placement.TargetLabel = ''web'',
            db_Placement.Rule = PortRule 82\<rparr>],
        nextID := 7,
        calls := [InsertCall Connections 1, InsertCall Connections 2,
                  CommitCall Connections 1, CommitCall Connections 2,
                  InsertCall Placements 3, CommitCall Placements 3,
                  InsertCall Placements 4, CommitCall Placements 4,
                  InsertCall Placements 5, CommitCall Placements 5,
                  InsertCall Placements 6, CommitCall Placements 6]\<rparr>)"
  unfolding overlap_connections
  by (simp add: updatePlacements_def toDBPlacements_def overlapExternals_def externalsWith_def
        overlapSpec_def emptyView_def placementSet_def makeConnectionPlacements_def
        SelectFromConnection_def SelectFromPlacement_def portLoop_upto upto_80_81 upto_81_82
        key_def addPlacement_def InsertPlacement_def CommitPlacement_def commitRow_def)

lemma overlap_containers:
  "ContainerTable view = [] \<Longrightarrow> updateContainers overlapExternals view overlapSpec = Inr view"
  by (simp add: updateContainers_def queryContainers_def overlapSpec_def overlapExternals_def
        externalsWith_def SelectFromContainer_def ScoredJoin_def compatible_def)

text \<open>
  C1. The placements derived from the placement directives are deduplicated by the
  placement set of \<open>toDBPlacements\<close>; those derived from the connections are appended
  as \<open>makeConnectionPlacements\<close> lists them. For a specification with two public
  connections to \<open>web\<close>, on the ports 80 to 81 and 81 to 82, the list handed to the
  join holds the port rule of 81 twice, and \<open>updatePolicy\<close> on the master leaves two
  placement rows of that rule in an empty view.
\<close>

theorem updatePolicy_duplicate_port_placements:
  "map_option (map key) (desiredPlacements overlapExternals
          (updateConnections overlapExternals emptyView overlapSpec) overlapSpec) =
       Some [(''web'', PortRule 80), (''web'', PortRule 81), (''web'', PortRule 81),
             (''web'', PortRule 82)]
   \<and> map_option (\<lambda>desired. distinct (map key desired))
         (desiredPlacements overlapExternals
            (updateConnections overlapExternals emptyView overlapSpec) overlapSpec) =
       Some False
   \<and> map_option (\<lambda>desired. count_list (map key desired) (''web'', PortRule 81))
         (desiredPlacements overlapExternals
            (updateConnections overlapExternals emptyView overlapSpec) overlapSpec) =
       Some 2
   \<and> map_option (map_sum id (\<lambda>view. map key (PlacementTable view)))
         (updatePolicy overlapExternals emptyView Master ''spec'') =
       Some (Inr [(''web'', PortRule 80), (''web'', PortRule 81), (''web'', PortRule 81),
                  (''web'', PortRule 82)])"
proof -
  have n: "New overlapExternals ''spec'' = Inr overlapSpec"
    by (simp add: overlapExternals_def externalsWith_def compileOverlap_def)
  obtain view2 where p: "updatePlacements overlapExternals
               (updateConnections overlapExternals emptyView overlapSpec) overlapSpec = Some view2"
    and e: "ContainerTable view2 = []"
    and t: "map key (PlacementTable view2) =
              [(''web'', PortRule 80), (''web'', PortRule 81), (''web'', PortRule 81),
               (''web'', PortRule 82)]"
    by (subst (asm) overlap_placements, subst (asm) overlap_connections)
       (simp add: emptyView_def key_def)
  have "updatePolicy overlapExternals emptyView Master ''spec'' = Some (Inr view2)"
    by (simp add: updatePolicy_def n p overlap_containers [OF e])
  then show ?thesis
    by (simp add: overlap_desired t key_def)
qed

subsection \<open>The score of two containers\<close>

lemma StrSliceEqual_iff: "StrSliceEqual xs ys \<longleftrightarrow> xs = ys"
  by (induction xs ys rule: StrSliceEqual.induct) simp_all

lemma StrStrMapEqual_iff: "StrStrMapEqual x y \<longleftrightarrow> map_of x = map_of y"
proof
  assume eq: "StrStrMapEqual x y"
  show "map_of x = map_of y"
  proof
    fix k
    show "map_of x k = map_of y k"
    proof (cases "k \<in> set (map fst x @ map fst y)")
      case True
      then show ?thesis using eq by (simp add: StrStrMapEqual_def list_all_iff)
    next
      case False
      then have "map_of x k = None" "map_of y k = None"
        by (simp_all add: map_of_eq_None_iff)
      then show ?thesis by simp
    qed
  qed
next
  assume "map_of x = map_of y"
  then show "StrStrMapEqual x y" by (simp add: StrStrMapEqual_def list_all_iff)
qed

lemma EditDistance_Nil2: "EditDistance xs [] = length xs"
  by (cases xs) simp_all

lemma EditDistance_insert: "EditDistance xs (a # ys) \<le> Suc (EditDistance xs ys)"
  by (cases xs) simp_all

lemma EditDistance_delete: "EditDistance (x # xs) ys \<le> Suc (EditDistance xs ys)"
  by (cases ys) (simp_all add: EditDistance_Nil2)

lemma EditDistance_substitute: "EditDistance (x # xs) (a # ys) \<le> Suc (EditDistance xs ys)"
proof -
  have "EditDistance (x # xs) (a # ys) \<le> EditDistance xs ys + (if x = a then 0 else 1)"
    unfolding EditDistance.simps by (rule min.cobounded2)
  also have "\<dots> \<le> Suc (EditDistance xs ys)" by simp
  finally show ?thesis .
qed

lemma min3_cases:
  fixes p q r :: nat
  shows "min (min p q) r = p \<or> min (min p q) r = q \<or> min (min p q) r = r"
  by (auto simp: min_def)

lemma EditDistance_keep: "EditDistance (x # xs) (x # ys) \<le> EditDistance xs ys"
proof -
  have "EditDistance (x # xs) (x # ys) \<le> EditDistance xs ys + (if x = x then 0 else 1)"
    unfolding EditDistance.simps by (rule min.cobounded2)
  then show ?thesis by simp
qed

lemma editCost_Cons: "editCost (e # es) = (if e = Keep then 0 else 1) + editCost es"
  by (simp add: editCost_def)

lemma EditDistance_lower:
  "applyEdits es xs = Some ys \<Longrightarrow> EditDistance xs ys \<le> editCost es"
proof (induction es arbitrary: xs ys)
  case Nil
  then show ?case by (cases xs) simp_all
next
  case (Cons e es)
  show ?case
  proof (cases e)
    case (Insertion a)
    with Cons.prems obtain ys' where ys: "ys = a # ys'" "applyEdits es xs = Some ys'" by auto
    have "EditDistance xs (a # ys') \<le> Suc (EditDistance xs ys')" by (rule EditDistance_insert)
    also have "\<dots> \<le> Suc (editCost es)" using Cons.IH [OF ys(2)] by simp
    finally show ?thesis by (simp add: ys(1) Insertion editCost_Cons)
  next
    case Deletion
    with Cons.prems obtain x xs' where xs: "xs = x # xs'" "applyEdits es xs' = Some ys"
      by (cases xs) auto
    have "EditDistance (x # xs') ys \<le> Suc (EditDistance xs' ys)" by (rule EditDistance_delete)
    also have "\<dots> \<le> Suc (editCost es)" using Cons.IH [OF xs(2)] by simp
    finally show ?thesis by (simp add: xs(1) Deletion editCost_Cons)
  next
    case (Substitution a)
    with Cons.prems obtain x xs' ys' where xs: "xs = x # xs'" "ys = a # ys'"
      "applyEdits es xs' = Some ys'"
      by (cases xs) auto
    have "EditDistance (x # xs') (a # ys') \<le> Suc (EditDistance xs' ys')"
      by (rule EditDistance_substitute)
    also have "\<dots> \<le> Suc (editCost es)" using Cons.IH [OF xs(3)] by simp
    finally show ?thesis by (simp add: xs(1,2) Substitution editCost_Cons)
  next
    case Keep
    with Cons.prems obtain x xs' ys' where xs: "xs = x # xs'" "ys = x # ys'"
      "applyEdits es xs' = Some ys'"
      by (cases xs) auto
    have "EditDistance (x # xs') (x # ys') \<le> EditDistance xs' ys'" by (rule EditDistance_keep)
    also have "\<dots> \<le> editCost es" by (rule Cons.IH [OF xs(3)])
    finally show ?thesis by (simp add: xs(1,2) Keep editCost_Cons)
  qed
qed

lemma EditDistance_script:
  "\<exists>es. applyEdits es xs = Some ys \<and> editCost es = EditDistance xs ys"
proof (induction xs ys rule: EditDistance.induct)
  case (1 b)
  have "applyEdits (map Insertion b) [] = Some b" by (induction b) simp_all
  moreover have "editCost (map Insertion b) = length b"
    by (induction b) (simp_all add: editCost_def)
  ultimately show ?case by (intro exI [of _ "map Insertion b"]) simp
next
  case (2 x a)
  have "applyEdits (replicate (length xs) Deletion) xs = Some []" for xs :: "'a list"
    by (induction xs) simp_all
  from this [of "x # a"] have "applyEdits (Deletion # replicate (length a) Deletion) (x # a) = Some []"
    by simp
  moreover have "editCost (Deletion # replicate (length a) Deletion) = Suc (length a)"
    by (simp add: editCost_def)
  ultimately show ?case
    by (intro exI [of _ "Deletion # replicate (length a) Deletion"]) simp
next
  case (3 x a y b)
  from "3.IH"(1) obtain e1 where e1: "applyEdits e1 a = Some (y # b)"
    "editCost e1 = EditDistance a (y # b)" by blast
  from "3.IH"(2) obtain e2 where e2: "applyEdits e2 (x # a) = Some b"
    "editCost e2 = EditDistance (x # a) b" by blast
  from "3.IH"(3) obtain e3 where e3: "applyEdits e3 a = Some b"
    "editCost e3 = EditDistance a b" by blast
  let ?d1 = "EditDistance a (y # b) + 1" and ?d2 = "EditDistance (x # a) b + 1"
    and ?d3 = "EditDistance a b + (if x = y then 0 else 1)"
  have d: "EditDistance (x # a) (y # b) = min (min ?d1 ?d2) ?d3" by (simp only: EditDistance.simps)
  have s1: "applyEdits (Deletion # e1) (x # a) = Some (y # b) \<and> editCost (Deletion # e1) = ?d1"
    using e1 by (simp add: editCost_Cons)
  have s2: "applyEdits (Insertion y # e2) (x # a) = Some (y # b)
            \<and> editCost (Insertion y # e2) = ?d2"
    using e2 by (simp add: editCost_Cons)
  have s3: "applyEdits ((if x = y then Keep else Substitution y) # e3) (x # a) = Some (y # b)
            \<and> editCost ((if x = y then Keep else Substitution y) # e3) = ?d3"
    using e3 by (simp add: editCost_Cons)
  from min3_cases [of ?d1 ?d2 ?d3] show ?case
  proof (elim disjE)
    assume "min (min ?d1 ?d2) ?d3 = ?d1"
    then show ?thesis using s1 unfolding d by metis
  next
    assume "min (min ?d1 ?d2) ?d3 = ?d2"
    then show ?thesis using s2 unfolding d by metis
  next
    assume "min (min ?d1 ?d2) ?d3 = ?d3"
    then show ?thesis using s3 unfolding d by metis
  qed
qed

subsection \<open>The container reconciler\<close>

lemma fold_RemoveContainer:
  "fold RemoveContainer rs view =
     view\<lparr>ContainerTable := filter (\<lambda>x. x \<notin> set rs) (ContainerTable view),
          calls := calls view @ map (\<lambda>r. RemoveCall Containers (db_Container.ID r)) rs\<rparr>"
proof (induction rs arbitrary: view)
  case Nil
  show ?case by simp
next
  case (Cons r rs)
  have "fold RemoveContainer (r # rs) view = fold RemoveContainer rs (RemoveContainer r view)"
    by simp
  also have "\<dots> = (RemoveContainer r view)
       \<lparr>ContainerTable := filter (\<lambda>x. x \<notin> set rs) (ContainerTable (RemoveContainer r view)),
        calls := calls (RemoveContainer r view)
                   @ map (\<lambda>r. RemoveCall Containers (db_Container.ID r)) rs\<rparr>"
    by (rule Cons.IH)
  also have "\<dots> = view\<lparr>ContainerTable := filter (\<lambda>x. x \<notin> set (r # rs)) (ContainerTable view),
          calls := calls view @ map (\<lambda>r. RemoveCall Containers (db_Container.ID r)) (r # rs)\<rparr>"
    by (simp add: RemoveContainer_def removeRow_filter del: set_simps)
  finally show ?case .
qed

lemma fold_pairWithNewContainer:
  "fold pairWithNewContainer news (ps, view) =
     (ps @ zip news (map handleContainer [nextID view..<nextID view + length news]),
      view\<lparr>nextID := nextID view + length news,
           calls := calls view @ map (InsertCall Containers)
                                   [nextID view..<nextID view + length news]\<rparr>)"
proof (induction news arbitrary: ps view)
  case Nil
  show ?case by simp
next
  case (Cons s news)
  let ?v = "view\<lparr>nextID := Suc (nextID view),
                  calls := calls view @ [InsertCall Containers (nextID view)]\<rparr>"
  have step: "pairWithNewContainer s (ps, view) = (ps @ [(s, handleContainer (nextID view))], ?v)"
    by (simp add: pairWithNewContainer_def InsertContainer_def handleContainer_def)
  have "fold pairWithNewContainer (s # news) (ps, view) =
        fold pairWithNewContainer news (ps @ [(s, handleContainer (nextID view))], ?v)"
    by (simp add: step)
  also have "\<dots> = ((ps @ [(s, handleContainer (nextID view))]) @
         zip news (map handleContainer [nextID ?v..<nextID ?v + length news]),
      ?v\<lparr>nextID := nextID ?v + length news,
           calls := calls ?v @ map (InsertCall Containers)
                                   [nextID ?v..<nextID ?v + length news]\<rparr>)"
    by (rule Cons.IH)
  also have "\<dots> = (ps @ zip (s # news)
                          (map handleContainer [nextID view..<nextID view + length (s # news)]),
      view\<lparr>nextID := nextID view + length (s # news),
           calls := calls view @ map (InsertCall Containers)
                                   [nextID view..<nextID view + length (s # news)]\<rparr>)"
    using upt_plus_Cons [of "nextID view" "length news"] by simp
  finally show ?case .
qed

lemma fold_commitContainerPair:
  "fold commitContainerPair ps view =
     view\<lparr>ContainerTable :=
            fold (\<lambda>(newc, dbc). commitRow db_Container.ID (writeContainer newc dbc)) ps
                 (ContainerTable view),
          calls := calls view
                     @ map (\<lambda>(newc, dbc). CommitCall Containers (db_Container.ID dbc)) ps\<rparr>"
proof (induction ps arbitrary: view)
  case Nil
  show ?case by simp
next
  case (Cons p ps)
  obtain s d where p: "p = (s, d)" by (cases p)
  have "fold commitContainerPair (p # ps) view
          = fold commitContainerPair ps (commitContainerPair p view)"
    by simp
  also have "\<dots> = (commitContainerPair p view)\<lparr>ContainerTable :=
            fold (\<lambda>(newc, dbc). commitRow db_Container.ID (writeContainer newc dbc)) ps
                 (ContainerTable (commitContainerPair p view)),
          calls := calls (commitContainerPair p view)
                     @ map (\<lambda>(newc, dbc). CommitCall Containers (db_Container.ID dbc)) ps\<rparr>"
    by (rule Cons.IH)
  also have "\<dots> = view\<lparr>ContainerTable :=
            fold (\<lambda>(newc, dbc). commitRow db_Container.ID (writeContainer newc dbc)) (p # ps)
                 (ContainerTable view),
          calls := calls view
                     @ map (\<lambda>(newc, dbc). CommitCall Containers (db_Container.ID dbc)) (p # ps)\<rparr>"
    by (simp add: p commitContainerPair_def CommitContainer_def writeContainer_def)
  finally show ?case .
qed

text \<open>Committing rows over rows of the table that have their \<open>ID\<close>s.\<close>

lemma commitRow_over:
  "rid u \<in> rid ` set t \<Longrightarrow> commitRow rid u t = map (\<lambda>x. if rid x = rid u then u else x) t"
  by (simp add: commitRow_def)

lemma commitRow_updates:
  assumes "distinct (map rid us)" "rid ` set us \<subseteq> rid ` set t"
  shows "fold (commitRow rid) us t = map (committed rid us) t"
  using assms
proof (induction us arbitrary: t)
  case Nil
  show ?case by (simp add: committed_def)
next
  case (Cons u us)
  let ?t = "map (\<lambda>x. if rid x = rid u then u else x) t"
  have ids: "map rid ?t = map rid t" by (induction t) auto
  have sub: "rid ` set us \<subseteq> rid ` set ?t"
  proof -
    have "rid ` set ?t = set (map rid ?t)" by (simp only: set_map)
    also have "\<dots> = rid ` set t" by (simp only: ids set_map)
    finally show ?thesis using Cons.prems(2) by auto
  qed
  have "fold (commitRow rid) (u # us) t = fold (commitRow rid) us ?t"
    using Cons.prems(2) by (simp add: commitRow_over)
  also have "\<dots> = map (committed rid us) ?t"
    using Cons.prems(1) sub by (intro Cons.IH) auto
  also have "\<dots> = map (committed rid (u # us)) t"
  proof -
    have "committed rid us (if rid x = rid u then u else x) = committed rid (u # us) x" for x
    proof (cases "rid x = rid u")
      case True
      have "rid u \<notin> rid ` set us" using Cons.prems(1) by simp
      then have "\<forall>v \<in> set us. rid v \<noteq> rid u" by (metis imageI)
      then have "find (\<lambda>v. rid v = rid u) us = None"
        by (simp add: find_None_iff)
      then show ?thesis using True by (simp add: committed_def)
    next
      case False
      then have "rid u \<noteq> rid x" by simp
      then show ?thesis using False by (simp add: committed_def)
    qed
    then show ?thesis by (simp add: comp_def)
  qed
  finally show ?case .
qed

lemma rid_committed: "rid (committed rid us x) = rid x"
  by (auto simp: committed_def find_Some_iff split: option.splits)

lemma ID_writeContainer: "db_Container.ID (writeContainer newc dbc) = db_Container.ID dbc"
  by (simp add: writeContainer_def)

lemma updateContainers_result:
  assumes valid: "validView view"
    and q: "queryContainers ext spec = Inr desired"
    and res: "Join ext desired (ContainerTable view) score = (pairs, news, dbcs)"
    and part: "mset (map snd pairs) + mset dbcs = mset (ContainerTable view)"
  shows "updateContainers ext view spec =
     Inr (view\<lparr>ContainerTable :=
            map (committed db_Container.ID (map (\<lambda>(newc, dbc). writeContainer newc dbc) pairs))
                (filter (\<lambda>r. r \<notin> set dbcs) (ContainerTable view))
            @ map (\<lambda>(new, i). writeContainer new (handleContainer i))
                (zip news [nextID view..<nextID view + length news]),
          nextID := nextID view + length news,
          calls := calls view
            @ map (\<lambda>r. RemoveCall Containers (db_Container.ID r)) dbcs
            @ map (InsertCall Containers) [nextID view..<nextID view + length news]
            @ map (\<lambda>(newc, dbc). CommitCall Containers (db_Container.ID dbc)) pairs
            @ map (CommitCall Containers) [nextID view..<nextID view + length news]\<rparr>)"
proof -
  let ?n = "nextID view" and ?k = "length news" and ?T = "ContainerTable view"
  let ?T1 = "filter (\<lambda>r. r \<notin> set dbcs) ?T"
  let ?us = "map (\<lambda>(newc, dbc). writeContainer newc dbc) pairs"
  let ?T2 = "map (committed db_Container.ID ?us) ?T1"
  let ?new = "zip news (map handleContainer [?n..<?n + ?k])"
  let ?w = "\<lambda>(newc, dbc). commitRow db_Container.ID (writeContainer newc dbc)"
  have vt: "validTable db_Container.ID ?n ?T" using valid by (simp add: validView_def)
  have dT: "distinct ?T" using vt by (rule validTable_distinct)
  have dI: "distinct (map db_Container.ID ?T)" using vt by (simp add: validTable_def)
  have ids_us: "map db_Container.ID ?us = map db_Container.ID (map snd pairs)"
    by (simp add: split_def comp_def ID_writeContainer)
  have "mset (map db_Container.ID (map snd pairs @ dbcs)) = mset (map db_Container.ID ?T)"
    using part by (metis mset_append mset_map)
  then have "distinct (map db_Container.ID (map snd pairs @ dbcs))"
    using dI by (metis mset_eq_imp_distinct_iff)
  then have d_us: "distinct (map db_Container.ID ?us)"
    unfolding ids_us by simp
  have "set (map snd pairs) \<subseteq> set ?T1"
    using partition_distinct(3,4) [OF part dT] by auto
  then have sub: "db_Container.ID ` set ?us \<subseteq> db_Container.ID ` set ?T1"
    using ids_us by (metis image_mono set_map)
  have matched: "fold ?w pairs ?T1 = ?T2"
  proof -
    have "fold ?w pairs ?T1 = fold (commitRow db_Container.ID) ?us ?T1"
      by (simp add: fold_map comp_def split_def)
    then show ?thesis using commitRow_updates [OF d_us sub] by simp
  qed
  have len: "length news = length [?n..<?n + ?k]" by simp
  have wnew: "map (\<lambda>(l, r). writeContainer l r) ?new =
              map (\<lambda>(new, i). writeContainer new (handleContainer i)) (zip news [?n..<?n + ?k])"
    unfolding map_zip_handles [OF len] by simp
  have idnew: "map (\<lambda>(l, r). db_Container.ID (writeContainer l r)) ?new = [?n..<?n + ?k]"
    unfolding map_zip_handles [OF len]
    by (simp add: ID_writeContainer handleContainer_def map_zip_right [OF len])
  have idnew2: "map (\<lambda>(l, r). db_Container.ID r) ?new = [?n..<?n + ?k]"
    unfolding map_zip_handles [OF len]
    by (simp add: handleContainer_def map_zip_right [OF len])
  have below: "\<forall>r \<in> set ?T2. db_Container.ID r < ?n"
    using vt by (auto simp: validTable_def list_all_iff rid_committed)
  have fresh: "fold ?w ?new ?T2 = ?T2 @ map (\<lambda>(l, r). writeContainer l r) ?new"
  proof (rule commit_new)
    show "distinct (map (\<lambda>(l, r). db_Container.ID (writeContainer l r)) ?new)"
      unfolding idnew by simp
    have "(\<lambda>(l, r). db_Container.ID (writeContainer l r)) ` set ?new = set [?n..<?n + ?k]"
      using idnew by (metis set_map)
    then show "(\<lambda>(l, r). db_Container.ID (writeContainer l r)) ` set ?new
                 \<inter> db_Container.ID ` set ?T2 = {}"
      using below by auto
  qed
  have table: "fold ?w (pairs @ ?new) ?T1 =
        ?T2 @ map (\<lambda>(new, i). writeContainer new (handleContainer i)) (zip news [?n..<?n + ?k])"
    by (simp add: matched fresh wnew)
  have cm: "map (\<lambda>(newc, dbc). CommitCall Containers (db_Container.ID dbc)) ?new
              = map (CommitCall Containers) [?n..<?n + ?k]"
  proof -
    have "map (\<lambda>(newc, dbc). CommitCall Containers (db_Container.ID dbc)) ?new
          = map (CommitCall Containers) (map (\<lambda>(l, r). db_Container.ID r) ?new)"
      by (simp add: split_def comp_def)
    then show ?thesis by (simp only: idnew2)
  qed
  show ?thesis
    unfolding updateContainers_def q sum.case Let_def SelectFromContainer_def res split_conv
      fold_RemoveContainer fold_pairWithNewContainer fold_commitContainerPair
    using table cm by simp
qed

lemma committed_this:
  "distinct (map rid us) \<Longrightarrow> u \<in> set us \<Longrightarrow> rid u = rid x \<Longrightarrow> committed rid us x = u"
proof (induction us)
  case Nil
  then show ?case by simp
next
  case (Cons v us)
  show ?case
  proof (cases "v = u")
    case True
    then show ?thesis using Cons.prems(3) by (simp add: committed_def)
  next
    case False
    then have u: "u \<in> set us" using Cons.prems(2) by simp
    then have "rid v \<noteq> rid u" using Cons.prems(1) by force
    then have "committed rid (v # us) x = committed rid us x"
      using Cons.prems(3) by (simp add: committed_def)
    then show ?thesis using Cons.IH u Cons.prems(1,3) by simp
  qed
qed

lemma score_compatible:
  "0 \<le> score l r \<longleftrightarrow>
     db_Container.Image l = db_Container.Image r
     \<and> db_Container.Command l = db_Container.Command r
     \<and> map_of (db_Container.Env l) = map_of (db_Container.Env r)"
  by (simp add: score_def StrSliceEqual_iff StrStrMapEqual_iff)

text \<open>A scored match of one desired container with one row.\<close>

lemma ScoredMatch_single:
  assumes "ScoredMatch [d] [r] sc (pairs, news, dbcs)" "0 \<le> sc d r"
  shows "pairs = [(d, r)] \<and> news = [] \<and> dbcs = []"
proof -
  have left: "mset (map fst pairs) + mset news = {#d#}"
    and right: "mset (map snd pairs) + mset dbcs = {#r#}"
    and opt: "list_all (\<lambda>c. compatible sc (fst c) \<longrightarrow>
                 length (fst c) < length pairs
               \<or> (length (fst c) = length pairs \<and> totalCost sc pairs \<le> totalCost sc (fst c)))
               (pairings [d] [r])"
    using assms(1) by (simp_all add: ScoredMatch_def)
  have "length pairs \<ge> 1"
    using opt assms(2) by (auto simp: compatible_def)
  moreover have "length pairs + length news = 1"
  proof -
    have "size (mset (map fst pairs) + mset news) = 1" by (simp only: left size_single)
    then show ?thesis by simp
  qed
  moreover have "length pairs + length dbcs = 1"
  proof -
    have "size (mset (map snd pairs) + mset dbcs) = 1" by (simp only: right size_single)
    then show ?thesis by simp
  qed
  ultimately have "length pairs = 1 \<and> length news = 0 \<and> length dbcs = 0" by linarith
  then have l: "length pairs = 1" "news = []" "dbcs = []" by simp_all
  then obtain p where p: "pairs = [p]" by (cases pairs) auto
  have "fst p = d" using left l p by simp
  moreover have "snd p = r" using right l p by simp
  ultimately show ?thesis using p l by (cases p) simp
qed

text \<open>The scored join above meets the contract of the scored match.\<close>

lemma picks_mset: "(x, rest) \<in> set (picks rs) \<Longrightarrow> mset rs = add_mset x (mset rest)"
  by (induction rs arbitrary: x rest) auto

lemma pairings_partition:
  "c \<in> set (pairings ls rs) \<Longrightarrow>
     mset (map fst (fst c)) + mset (fst (snd c)) = mset ls
     \<and> mset (map snd (fst c)) + mset (snd (snd c)) = mset rs"
proof (induction ls arbitrary: rs c)
  case Nil
  then show ?case by simp
next
  case (Cons l ls)
  from Cons.prems consider
    (paired) r rest c' where "(r, rest) \<in> set (picks rs)" "c' \<in> set (pairings ls rest)"
      "c = ((l, r) # fst c', fst (snd c'), snd (snd c'))"
    | (lonely) c' where "c' \<in> set (pairings ls rs)" "c = (fst c', l # fst (snd c'), snd (snd c'))"
    by (auto simp: split_def)
  then show ?case
  proof cases
    case paired
    then show ?thesis using Cons.IH [OF paired(2)] picks_mset [OF paired(1)] by simp
  next
    case lonely
    then show ?thesis using Cons.IH [OF lonely(1)] by simp
  qed
qed

lemma best_member: "best sc c cs \<in> set (c # cs)"
  by (induction cs arbitrary: c) auto

lemma best_optimal: "d \<in> set (c # cs) \<Longrightarrow> \<not> better sc d (best sc c cs)"
proof (induction cs arbitrary: c d)
  case Nil
  then show ?case by (simp add: better_def)
next
  case (Cons e cs)
  let ?c = "if better sc e c then e else c"
  have top: "\<not> better sc ?c (best sc ?c cs)" using Cons.IH [of ?c ?c] by simp
  have trans: "\<not> better sc x (best sc ?c cs)" if "\<not> better sc x ?c" for x
    using that top unfolding better_def by (cases "better sc e c") auto
  from Cons.prems consider "d = c" | "d = e" | "d \<in> set cs" by auto
  then show ?case
  proof cases
    case 1
    have "\<not> better sc c ?c" by (auto simp: better_def)
    then show ?thesis using trans 1 by simp
  next
    case 2
    have "\<not> better sc e ?c" by (auto simp: better_def)
    then show ?thesis using trans 2 by simp
  next
    case 3
    then show ?thesis using Cons.IH [of d ?c] by simp
  qed
qed

lemma pairings_lonely: "([], ls, rs) \<in> set (pairings ls rs)"
  by (induction ls) (auto simp: split_def image_iff intro!: bexI)

lemma ScoredJoin_ScoredMatch: "ScoredMatch ls rs sc (ScoredJoin ls rs sc)"
proof -
  let ?cs = "filter (\<lambda>c. compatible sc (fst c)) (pairings ls rs)"
  let ?b = "ScoredJoin ls rs sc"
  have mem: "?b \<in> set (([], ls, rs) # ?cs)"
    unfolding ScoredJoin_def by (rule best_member)
  have "([], ls, rs) \<in> set ?cs"
    using pairings_lonely [of ls rs] by (simp add: compatible_def)
  then have b: "?b \<in> set (pairings ls rs)" "compatible sc (fst ?b)"
    using mem by auto
  have opt: "length (fst c) < length (fst ?b)
             \<or> (length (fst c) = length (fst ?b) \<and> totalCost sc (fst ?b) \<le> totalCost sc (fst c))"
    if "c \<in> set (pairings ls rs)" "compatible sc (fst c)" for c
  proof -
    have "c \<in> set (([], ls, rs) # ?cs)" using that by simp
    then have "\<not> better sc c ?b" unfolding ScoredJoin_def by (rule best_optimal)
    then show ?thesis by (auto simp: better_def)
  qed
  obtain pairs ul ur where r: "?b = (pairs, ul, ur)" by (cases ?b)
  show ?thesis
    using pairings_partition [OF b(1)] b(2) opt
    by (simp add: ScoredMatch_def r list_all_iff)
qed

text \<open>
  C7. The score of two containers is the incompatible marker \<open>-1\<close> exactly when they
  differ in the image, or their commands are not the same sequence, or their
  environments are not the same mapping. Otherwise it is the edit distance of their
  label sequences: some script of insertions, deletions and substitutions of labels
  rewrites the first sequence into the second at this cost, and no script does at a
  lower one. A scored match that meets its contract never pairs two containers whose
  score is the marker.
\<close>

theorem score_gate_and_cost:
  "(score left right = - 1 \<longleftrightarrow>
      db_Container.Image left \<noteq> db_Container.Image right
      \<or> db_Container.Command left \<noteq> db_Container.Command right
      \<or> map_of (db_Container.Env left) \<noteq> map_of (db_Container.Env right))
   \<and> (score left right \<noteq> - 1 \<longrightarrow>
        score left right = int (EditDistance (Labels left) (Labels right))
        \<and> (\<exists>es. applyEdits es (Labels left) = Some (Labels right)
                  \<and> int (editCost es) = score left right)
        \<and> (\<forall>es. applyEdits es (Labels left) = Some (Labels right)
                  \<longrightarrow> score left right \<le> int (editCost es)))
   \<and> (\<forall>ls rs res. ScoredMatch ls rs score res \<longrightarrow> (left, right) \<in> set (fst res)
          \<longrightarrow> score left right \<noteq> - 1)"
proof -
  have gate: "score left right = - 1 \<longleftrightarrow>
      db_Container.Image left \<noteq> db_Container.Image right
      \<or> db_Container.Command left \<noteq> db_Container.Command right
      \<or> map_of (db_Container.Env left) \<noteq> map_of (db_Container.Env right)"
    by (simp add: score_def StrSliceEqual_iff StrStrMapEqual_iff)
  have cost: "score left right = int (EditDistance (Labels left) (Labels right))"
    if "score left right \<noteq> - 1"
    using that by (simp add: score_def split: if_splits)
  have script: "\<exists>es. applyEdits es (Labels left) = Some (Labels right)
                  \<and> int (editCost es) = score left right"
    if "score left right \<noteq> - 1"
    using EditDistance_script [of "Labels left" "Labels right"] cost [OF that] by auto
  have least: "score left right \<le> int (editCost es)"
    if "score left right \<noteq> - 1" "applyEdits es (Labels left) = Some (Labels right)" for es
    using EditDistance_lower [OF that(2)] cost [OF that(1)] by simp
  have never: "score left right \<noteq> - 1"
    if "ScoredMatch ls rs score res" "(left, right) \<in> set (fst res)" for ls rs res
  proof -
    have "compatible score (fst res)"
      using that(1) by (cases res) (simp add: ScoredMatch_def)
    then have "0 \<le> score left right"
      using that(2) by (auto simp: compatible_def list_all_iff)
    then show ?thesis by simp
  qed
  show ?thesis using gate cost script least never by blast
qed

lemma score_examples:
  "score nginxAC nginxAB = 1" "score redisAB nginxAB = - 1"
  by (simp_all add: score_def nginxAC_def nginxAB_def redisAB_def StrStrMapEqual_def)

theorem score_gate_and_cost_witness:
  "score nginxAC nginxAB = 1
   \<and> score redisAB nginxAB = - 1
   \<and> db_Container.Image redisAB \<noteq> db_Container.Image nginxAB
   \<and> applyEdits [Keep, Substitution ''b''] (Labels nginxAC) = Some (Labels nginxAB)
   \<and> score nginxAC nginxAB \<le> int (editCost [Keep, Substitution ''b''])
   \<and> ScoredMatch [nginxAC] [nginxAB] score ([(nginxAC, nginxAB)], [], [])
   \<and> ScoredJoin [redisAB] [nginxAB] score = ([], [redisAB], [nginxAB])"
proof -
  note t = score_gate_and_cost [of nginxAC nginxAB]
  have a: "applyEdits [Keep, Substitution ''b''] (Labels nginxAC) = Some (Labels nginxAB)"
    by (simp add: nginxAC_def nginxAB_def)
  have "score nginxAC nginxAB \<noteq> - 1" by (simp add: score_examples)
  with t a have "score nginxAC nginxAB \<le> int (editCost [Keep, Substitution ''b''])"
    by blast
  moreover have "ScoredJoin [nginxAC] [nginxAB] score = ([(nginxAC, nginxAB)], [], [])"
    by (simp add: ScoredJoin_def compatible_def better_def totalCost_def score_examples)
  then have "ScoredMatch [nginxAC] [nginxAB] score ([(nginxAC, nginxAB)], [], [])"
    using ScoredJoin_ScoredMatch [of "[nginxAC]" "[nginxAB]" score] by simp
  moreover have "ScoredJoin [redisAB] [nginxAB] score = ([], [redisAB], [nginxAB])"
    by (simp add: ScoredJoin_def compatible_def better_def totalCost_def score_examples)
  moreover have "db_Container.Image redisAB \<noteq> db_Container.Image nginxAB"
    by (simp add: redisAB_def nginxAB_def)
  ultimately show ?thesis using a by (simp add: score_examples)
qed

text \<open>The view \<open>updateContainers\<close> leaves, by the rows it writes.\<close>

lemma updateContainers_written:
  assumes "validView view"
    and "queryContainers ext spec = Inr desired"
    and "Join ext desired (ContainerTable view) score = (pairs, news, dbcs)"
    and "ScoredMatch desired (ContainerTable view) score (pairs, news, dbcs)"
  shows "(case updateContainers ext view spec of
            Inl e \<Rightarrow> False
          | Inr view' \<Rightarrow>
              view' =
                view\<lparr>ContainerTable :=
                       map (committed db_Container.ID
                              (map (\<lambda>(newc, dbc). writeContainer newc dbc) pairs))
                           (filter (\<lambda>r. r \<notin> set dbcs) (ContainerTable view))
                       @ map (\<lambda>(new, i). writeContainer new (handleContainer i))
                           (zip news [nextID view..<nextID view + length news]),
                     nextID := nextID view + length news,
                     calls := calls view
                       @ map (\<lambda>r. RemoveCall Containers (db_Container.ID r)) dbcs
                       @ map (InsertCall Containers) [nextID view..<nextID view + length news]
                       @ map (\<lambda>(newc, dbc). CommitCall Containers (db_Container.ID dbc)) pairs
                       @ map (CommitCall Containers)
                           [nextID view..<nextID view + length news]\<rparr>
              \<and> (\<forall>(newc, dbc) \<in> set pairs.
                    dbc \<in> set (ContainerTable view) \<and> dbc \<notin> set dbcs
                    \<and> writeContainer newc dbc \<in> set (ContainerTable view'))
              \<and> (\<forall>dbc \<in> set dbcs.
                    db_Container.ID dbc \<notin> db_Container.ID ` set (ContainerTable view'))
              \<and> length (ContainerTable view') = length desired)
       \<and> (\<forall>d r. desired = [d] \<and> ContainerTable view = [r]
                 \<and> db_Container.Image d = db_Container.Image r
                 \<and> db_Container.Command d = db_Container.Command r
                 \<and> map_of (db_Container.Env d) = map_of (db_Container.Env r) \<longrightarrow>
              updateContainers ext view spec =
                Inr (view\<lparr>ContainerTable :=
                            [r\<lparr>Labels := sort (Labels d),
                               db_Container.Command := db_Container.Command d,
                               db_Container.Image := db_Container.Image d,
                               db_Container.Env := db_Container.Env d\<rparr>],
                          calls := calls view
                            @ [CommitCall Containers (db_Container.ID r)]\<rparr>))"
proof -
  let ?n = "nextID view" and ?T = "ContainerTable view"
  let ?us = "map (\<lambda>(newc, dbc). writeContainer newc dbc) pairs"
  let ?T1 = "filter (\<lambda>r. r \<notin> set dbcs) ?T"
  let ?new = "map (\<lambda>(new, i). writeContainer new (handleContainer i))
                (zip news [?n..<?n + length news])"
  let ?T' = "map (committed db_Container.ID ?us) ?T1 @ ?new"
  have left: "mset (map fst pairs) + mset news = mset desired"
    and part: "mset (map snd pairs) + mset dbcs = mset ?T"
    using assms(4) by (simp_all add: ScoredMatch_def)
  note result = updateContainers_result [OF assms(1,2,3) part]
  have vt: "validTable db_Container.ID ?n ?T" using assms(1) by (simp add: validView_def)
  have dT: "distinct ?T" using vt by (rule validTable_distinct)
  have dI: "distinct (map db_Container.ID ?T)" using vt by (simp add: validTable_def)
  have ids_us: "map db_Container.ID ?us = map db_Container.ID (map snd pairs)"
    by (simp add: split_def comp_def ID_writeContainer)
  have "mset (map db_Container.ID (map snd pairs @ dbcs)) = mset (map db_Container.ID ?T)"
    using part by (metis mset_append mset_map)
  then have dpd: "distinct (map db_Container.ID (map snd pairs @ dbcs))"
    using dI by (metis mset_eq_imp_distinct_iff)
  then have d_us: "distinct (map db_Container.ID ?us)"
    unfolding ids_us by simp
  have p1: "dbc \<in> set ?T \<and> dbc \<notin> set dbcs \<and> writeContainer newc dbc \<in> set ?T'"
    if "(newc, dbc) \<in> set pairs" for newc dbc
  proof -
    have "dbc \<in> set (map snd pairs)" using that by force
    then have in1: "dbc \<in> set ?T1" and inT: "dbc \<in> set ?T" and out: "dbc \<notin> set dbcs"
      using partition_distinct(3,4) [OF part dT] by auto
    have "writeContainer newc dbc \<in> set ?us" using that by force
    then have "committed db_Container.ID ?us dbc = writeContainer newc dbc"
      using d_us by (intro committed_this) (simp_all add: ID_writeContainer)
    then have "writeContainer newc dbc \<in> set (map (committed db_Container.ID ?us) ?T1)"
      using in1 by (metis imageI set_map)
    then show ?thesis using inT out by simp
  qed
  have idnew: "map db_Container.ID ?new = [?n..<?n + length news]"
  proof -
    have "map db_Container.ID ?new = map snd (zip news [?n..<?n + length news])"
      by (simp add: split_def comp_def ID_writeContainer handleContainer_def)
    then show ?thesis by simp
  qed
  have p2: "db_Container.ID dbc \<notin> db_Container.ID ` set ?T'" if "dbc \<in> set dbcs" for dbc
  proof -
    have inT: "dbc \<in> set ?T" using that part
      by (metis mset_subset_eq_add_right set_mset_mono set_mset_mset subsetD)
    then have "db_Container.ID dbc < ?n"
      using vt by (auto simp: validTable_def list_all_iff)
    moreover have "db_Container.ID ` set ?new = set [?n..<?n + length news]"
      using idnew by (metis set_map)
    ultimately have a: "db_Container.ID dbc \<notin> db_Container.ID ` set ?new"
      by simp
    moreover have "db_Container.ID dbc \<notin> db_Container.ID ` set ?T1"
    proof
      assume "db_Container.ID dbc \<in> db_Container.ID ` set ?T1"
      then obtain x where x: "x \<in> set ?T" "x \<notin> set dbcs"
        "db_Container.ID x = db_Container.ID dbc" by auto
      then have "x = dbc" using dI inT by (auto simp: distinct_map dest: inj_onD)
      then show False using x(2) that by simp
    qed
    moreover have "db_Container.ID ` set (map (committed db_Container.ID ?us) ?T1)
                     = db_Container.ID ` set ?T1"
      by (simp add: image_image rid_committed)
    ultimately show ?thesis by (simp only: set_append image_Un Un_iff) blast
  qed
  have p3: "length ?T' = length desired"
  proof -
    have "length ?T1 = length pairs"
      using partition_filter [OF part dT] by (metis size_mset length_map)
    moreover have "length pairs + length news = length desired"
      using left by (metis size_mset size_union length_map)
    ultimately show ?thesis by simp
  qed
  have single: "updateContainers ext view spec =
                Inr (view\<lparr>ContainerTable :=
                            [r\<lparr>Labels := sort (Labels d),
                               db_Container.Command := db_Container.Command d,
                               db_Container.Image := db_Container.Image d,
                               db_Container.Env := db_Container.Env d\<rparr>],
                          calls := calls view
                            @ [CommitCall Containers (db_Container.ID r)]\<rparr>)"
    if "desired = [d]" "ContainerTable view = [r]"
      "db_Container.Image d = db_Container.Image r"
      "db_Container.Command d = db_Container.Command r"
      "map_of (db_Container.Env d) = map_of (db_Container.Env r)" for d r
  proof -
    have "0 \<le> score d r" using that(3,4,5) by (simp add: score_compatible)
    then have "pairs = [(d, r)] \<and> news = [] \<and> dbcs = []"
      using assms(4) that(1,2) by (intro ScoredMatch_single) simp_all
    then show ?thesis
      using result that(2) by (simp add: committed_def writeContainer_def)
  qed
  define view' where "view' =
     view\<lparr>ContainerTable := ?T',
          nextID := nextID view + length news,
          calls := calls view
            @ map (\<lambda>r. RemoveCall Containers (db_Container.ID r)) dbcs
            @ map (InsertCall Containers) [nextID view..<nextID view + length news]
            @ map (\<lambda>(newc, dbc). CommitCall Containers (db_Container.ID dbc)) pairs
            @ map (CommitCall Containers) [nextID view..<nextID view + length news]\<rparr>"
  have r: "updateContainers ext view spec = Inr view'"
    using result by (simp add: view'_def)
  have t: "ContainerTable view' = ?T'" by (simp add: view'_def)
  have g1: "\<forall>(newc, dbc) \<in> set pairs.
              dbc \<in> set (ContainerTable view) \<and> dbc \<notin> set dbcs
              \<and> writeContainer newc dbc \<in> set (ContainerTable view')"
    unfolding t using p1 by blast
  have g2: "\<forall>dbc \<in> set dbcs.
              db_Container.ID dbc \<notin> db_Container.ID ` set (ContainerTable view')"
    unfolding t using p2 by blast
  have g3: "length (ContainerTable view') = length desired"
    unfolding t by (rule p3)
  have main: "case updateContainers ext view spec of
            Inl e \<Rightarrow> False
          | Inr v \<Rightarrow>
              v = view\<lparr>ContainerTable := ?T',
                       nextID := nextID view + length news,
                       calls := calls view
                         @ map (\<lambda>r. RemoveCall Containers (db_Container.ID r)) dbcs
                         @ map (InsertCall Containers) [nextID view..<nextID view + length news]
                         @ map (\<lambda>(newc, dbc). CommitCall Containers (db_Container.ID dbc)) pairs
                         @ map (CommitCall Containers)
                             [nextID view..<nextID view + length news]\<rparr>
              \<and> (\<forall>(newc, dbc) \<in> set pairs.
                    dbc \<in> set (ContainerTable view) \<and> dbc \<notin> set dbcs
                    \<and> writeContainer newc dbc \<in> set (ContainerTable v))
              \<and> (\<forall>dbc \<in> set dbcs.
                    db_Container.ID dbc \<notin> db_Container.ID ` set (ContainerTable v))
              \<and> length (ContainerTable v) = length desired"
    unfolding r sum.case using g1 g2 g3 view'_def by blast
  show ?thesis
    using main single by blast
qed



lemma writeContainer_newContainer:
  "writeContainer newc dbc = newContainer newc (db_Container.ID dbc)"
  by (cases dbc) (simp add: writeContainer_def newContainer_def)

lemma ID_handleContainer: "db_Container.ID (handleContainer i) = i"
  by (simp add: handleContainer_def)

text \<open>
  C8. In a valid view, when \<open>queryContainers\<close> returns the desired containers and the
  scored join meets its contract, \<open>updateContainers\<close> removes every row the join left
  unmatched, inserts a new row for every desired container it left unmatched, and
  commits the row of every pair, old or new, as the row of its \<open>ID\<close> with the
  command, the image and the environment of the desired container and with its
  labels sorted: the row of a matched pair keeps its place and its \<open>ID\<close>, the new
  rows follow. The other tables are untouched. In particular, when the only desired
  container and the only row agree on image, command and environment, they are
  paired, and the row is committed in place with the sorted desired labels: the
  commit is the only call issued.
\<close>

theorem updateContainers_reconciles:
  assumes "validView view"
    and "queryContainers ext spec = Inr desired"
    and "Join ext desired (ContainerTable view) score = (pairs, news, dbcs)"
    and "ScoredMatch desired (ContainerTable view) score (pairs, news, dbcs)"
  shows "(case updateContainers ext view spec of
            Inl e \<Rightarrow> False
          | Inr view' \<Rightarrow>
              view' =
                view\<lparr>ContainerTable :=
                       map (committed db_Container.ID
                              (map (\<lambda>(newc, dbc).
                                      \<lparr>db_Container.ID = db_Container.ID dbc,
                                       db_Container.Command = db_Container.Command newc,
                                       db_Container.Image = db_Container.Image newc,
                                       db_Container.Env = db_Container.Env newc,
                                       db_Container.Labels = sort (db_Container.Labels newc)\<rparr>)
                                   pairs))
                           (filter (\<lambda>r. r \<notin> set dbcs) (ContainerTable view))
                       @ map (\<lambda>(newc, i).
                                \<lparr>db_Container.ID = i,
                                 db_Container.Command = db_Container.Command newc,
                                 db_Container.Image = db_Container.Image newc,
                                 db_Container.Env = db_Container.Env newc,
                                 db_Container.Labels = sort (db_Container.Labels newc)\<rparr>)
                           (zip news [nextID view..<nextID view + length news]),
                     nextID := nextID view + length news,
                     calls := calls view
                       @ map (\<lambda>r. RemoveCall Containers (db_Container.ID r)) dbcs
                       @ map (InsertCall Containers) [nextID view..<nextID view + length news]
                       @ map (\<lambda>(newc, dbc). CommitCall Containers (db_Container.ID dbc)) pairs
                       @ map (CommitCall Containers)
                           [nextID view..<nextID view + length news]\<rparr>
              \<and> (\<forall>(newc, dbc) \<in> set pairs.
                    dbc \<in> set (ContainerTable view) \<and> dbc \<notin> set dbcs
                    \<and> \<lparr>db_Container.ID = db_Container.ID dbc,
                        db_Container.Command = db_Container.Command newc,
                        db_Container.Image = db_Container.Image newc,
                        db_Container.Env = db_Container.Env newc,
                        db_Container.Labels = sort (db_Container.Labels newc)\<rparr>
                         \<in> set (ContainerTable view'))
              \<and> (\<forall>dbc \<in> set dbcs.
                    db_Container.ID dbc \<notin> db_Container.ID ` set (ContainerTable view'))
              \<and> length (ContainerTable view') = length desired)
       \<and> (\<forall>d r. desired = [d] \<and> ContainerTable view = [r]
                 \<and> db_Container.Image d = db_Container.Image r
                 \<and> db_Container.Command d = db_Container.Command r
                 \<and> map_of (db_Container.Env d) = map_of (db_Container.Env r) \<longrightarrow>
              updateContainers ext view spec =
                Inr (view\<lparr>ContainerTable :=
                            [\<lparr>db_Container.ID = db_Container.ID r,
                              db_Container.Command = db_Container.Command d,
                              db_Container.Image = db_Container.Image d,
                              db_Container.Env = db_Container.Env d,
                              db_Container.Labels = sort (db_Container.Labels d)\<rparr>],
                          calls := calls view
                            @ [CommitCall Containers (db_Container.ID r)]\<rparr>))"
proof -
  have r: "r\<lparr>Labels := sort (Labels d),
             db_Container.Command := db_Container.Command d,
             db_Container.Image := db_Container.Image d,
             db_Container.Env := db_Container.Env d\<rparr>
           = newContainer d (db_Container.ID r)" for r d
    by (cases r) (simp add: newContainer_def)
  show ?thesis
    using updateContainers_written [OF assms]
    unfolding writeContainer_newContainer ID_handleContainer r
    unfolding newContainer_def .
qed

lemma mixed_query:
  "queryContainers mixedExternals mixedSpec = Inr [mixedNginx 0 [''web'', ''front''], mixedRedis 0]"
  by (simp add: queryContainers_def mixedExternals_def externalsWith_def mixedSpec_def
        mixedNginx_def mixedRedis_def AList.update.simps)

lemma mixed_scores:
  "score (mixedNginx 0 [''web'', ''front'']) (mixedNginx 3 [''web'']) = 1"
  "score (mixedNginx 0 [''web'', ''front'']) mixedMysql = - 1"
  "score (mixedRedis 0) (mixedNginx 3 [''web'']) = - 1"
  "score (mixedRedis 0) mixedMysql = - 1"
  by (simp_all add: score_def mixedNginx_def mixedRedis_def mixedMysql_def StrStrMapEqual_def)

lemma mixed_join:
  "Join mixedExternals [mixedNginx 0 [''web'', ''front''], mixedRedis 0]
     (ContainerTable mixedView) score =
   ([(mixedNginx 0 [''web'', ''front''], mixedNginx 3 [''web''])], [mixedRedis 0], [mixedMysql])"
  by (simp add: mixedExternals_def externalsWith_def mixedView_def ScoredJoin_def
        compatible_def better_def totalCost_def mixed_scores)

theorem updateContainers_reconciles_witness:
  "validView mixedView
   \<and> queryContainers mixedExternals mixedSpec =
       Inr [mixedNginx 0 [''web'', ''front''], mixedRedis 0]
   \<and> Join mixedExternals [mixedNginx 0 [''web'', ''front''], mixedRedis 0]
         (ContainerTable mixedView) score =
       ([(mixedNginx 0 [''web'', ''front''], mixedNginx 3 [''web''])], [mixedRedis 0],
        [mixedMysql])
   \<and> ScoredMatch [mixedNginx 0 [''web'', ''front''], mixedRedis 0]
         (ContainerTable mixedView) score
         ([(mixedNginx 0 [''web'', ''front''], mixedNginx 3 [''web''])], [mixedRedis 0],
          [mixedMysql])
   \<and> ContainerTable mixedView =
       [\<lparr>db_Container.ID = 3, db_Container.Command = [''serve''],
         db_Container.Image = ''nginx'', db_Container.Env = [(''port'', ''80'')],
         db_Container.Labels = [''web'']\<rparr>,
        \<lparr>db_Container.ID = 4, db_Container.Command = [''mysqld''],
         db_Container.Image = ''mysql'', db_Container.Env = [],
         db_Container.Labels = [''db'']\<rparr>]
   \<and> updateContainers mixedExternals mixedView mixedSpec =
       Inr (mixedView
              \<lparr>ContainerTable :=
                 [\<lparr>db_Container.ID = 3, db_Container.Command = [''serve''],
                   db_Container.Image = ''nginx'', db_Container.Env = [(''port'', ''80'')],
                   db_Container.Labels = [''front'', ''web'']\<rparr>,
                  \<lparr>db_Container.ID = 5, db_Container.Command = [''redis-server''],
                   db_Container.Image = ''redis'', db_Container.Env = [],
                   db_Container.Labels = [''cache'']\<rparr>],
               nextID := 6,
               calls := [RemoveCall Containers 4, InsertCall Containers 5,
                         CommitCall Containers 3, CommitCall Containers 5]\<rparr>)"
proof -
  have v: "validView mixedView"
    by (simp add: validView_def validTable_def mixedView_def mixedNginx_def mixedMysql_def)
  have m: "ScoredMatch [mixedNginx 0 [''web'', ''front''], mixedRedis 0]
             (ContainerTable mixedView) score
             ([(mixedNginx 0 [''web'', ''front''], mixedNginx 3 [''web''])], [mixedRedis 0],
              [mixedMysql])"
    using ScoredJoin_ScoredMatch [of "[mixedNginx 0 [''web'', ''front''], mixedRedis 0]"
                                     "ContainerTable mixedView" score] mixed_join
    by (simp add: mixedExternals_def externalsWith_def)
  have t: "ContainerTable mixedView =
       [\<lparr>db_Container.ID = 3, db_Container.Command = [''serve''],
         db_Container.Image = ''nginx'', db_Container.Env = [(''port'', ''80'')],
         db_Container.Labels = [''web'']\<rparr>,
        \<lparr>db_Container.ID = 4, db_Container.Command = [''mysqld''],
         db_Container.Image = ''mysql'', db_Container.Env = [],
         db_Container.Labels = [''db'']\<rparr>]"
    by (simp add: mixedView_def mixedNginx_def mixedMysql_def)
  have n: "nextID mixedView = 5" "calls mixedView = []" by (simp_all add: mixedView_def)
  have "updateContainers mixedExternals mixedView mixedSpec =
       Inr (mixedView
              \<lparr>ContainerTable :=
                 [\<lparr>db_Container.ID = 3, db_Container.Command = [''serve''],
                   db_Container.Image = ''nginx'', db_Container.Env = [(''port'', ''80'')],
                   db_Container.Labels = [''front'', ''web'']\<rparr>,
                  \<lparr>db_Container.ID = 5, db_Container.Command = [''redis-server''],
                   db_Container.Image = ''redis'', db_Container.Env = [],
                   db_Container.Labels = [''cache'']\<rparr>],
               nextID := 6,
               calls := [RemoveCall Containers 4, InsertCall Containers 5,
                         CommitCall Containers 3, CommitCall Containers 5]\<rparr>)"
    using updateContainers_reconciles [OF v mixed_query mixed_join m]
    by (simp add: t n committed_def mixedNginx_def mixedRedis_def mixedMysql_def
          split: sum.splits)
  then show ?thesis
    using v m t mixed_query mixed_join by simp
qed

subsection \<open>Two invocations in succession\<close>


lemma twin_scores:
  "score (twinRow 0 [''b'', ''a'']) (twinRow 5 [''a'', ''b'']) = 2"
  "score (twinRow 0 [''b'', ''a'']) (twinRow 6 [''b'', ''c'']) = 1"
  "score (twinRow 0 [''c'', ''b'']) (twinRow 5 [''a'', ''b'']) = 1"
  "score (twinRow 0 [''c'', ''b'']) (twinRow 6 [''b'', ''c'']) = 2"
  by (simp_all add: score_def twinRow_def StrStrMapEqual_def)







lemma mset_pair_cases:
  assumes "{#x, y#} = {#a, b#}"
  shows "(x = a \<and> y = b) \<or> (x = b \<and> y = a)"
  using assms by (auto simp: add_eq_conv_ex)

lemma EqualityJoin_empty:
  "EqualityJoin [] [] kl kr res \<Longrightarrow> res = ([], [], [])"
  by (cases res) (simp add: EqualityJoin_def)

lemma rangeOrder_Nil: "rangeOrder f \<Longrightarrow> f [] = []"
  unfolding rangeOrder_def by (metis mset_zero_iff)

text \<open>
  Every scored match of the two desired containers of the example with the two rows
  the first invocation left pairs each with the row of the other.
\<close>

lemma twin_match:
  assumes D: "D = [twinRow 0 [''b'', ''a''], twinRow 0 [''c'', ''b'']]
              \<or> D = [twinRow 0 [''c'', ''b''], twinRow 0 [''b'', ''a'']]"
    and m: "ScoredMatch D [twinRow 5 [''a'', ''b''], twinRow 6 [''b'', ''c'']] score
              (pairs, news, dbcs)"
  shows "news = [] \<and> dbcs = []
       \<and> (pairs = [(twinRow 0 [''b'', ''a''], twinRow 6 [''b'', ''c'']),
                    (twinRow 0 [''c'', ''b''], twinRow 5 [''a'', ''b''])]
          \<or> pairs = [(twinRow 0 [''c'', ''b''], twinRow 5 [''a'', ''b'']),
                      (twinRow 0 [''b'', ''a''], twinRow 6 [''b'', ''c''])])"
proof -
  let ?d1 = "twinRow 0 [''b'', ''a'']" and ?d2 = "twinRow 0 [''c'', ''b'']"
  let ?r5 = "twinRow 5 [''a'', ''b'']" and ?r6 = "twinRow 6 [''b'', ''c'']"
  have left: "mset (map fst pairs) + mset news = {#?d1, ?d2#}"
    using m D by (auto simp: ScoredMatch_def)
  have right: "mset (map snd pairs) + mset dbcs = {#?r5, ?r6#}"
    using m by (simp add: ScoredMatch_def)
  have opt: "\<forall>c \<in> set (pairings D [?r5, ?r6]). compatible score (fst c) \<longrightarrow>
                 length (fst c) < length pairs
               \<or> (length (fst c) = length pairs \<and> totalCost score pairs \<le> totalCost score (fst c))"
    using m by (simp add: ScoredMatch_def list_all_iff)
  obtain c where c: "c \<in> set (pairings D [?r5, ?r6])" "compatible score (fst c)"
    "length (fst c) = 2" "totalCost score (fst c) = 2"
  proof -
    have "([(?d1, ?r6), (?d2, ?r5)], [], []) \<in> set (pairings [?d1, ?d2] [?r5, ?r6])"
      "([(?d2, ?r5), (?d1, ?r6)], [], []) \<in> set (pairings [?d2, ?d1] [?r5, ?r6])"
      by simp_all
    moreover have "compatible score [(?d1, ?r6), (?d2, ?r5)]"
      "compatible score [(?d2, ?r5), (?d1, ?r6)]"
      "totalCost score [(?d1, ?r6), (?d2, ?r5)] = 2"
      "totalCost score [(?d2, ?r5), (?d1, ?r6)] = 2"
      by (simp_all add: compatible_def totalCost_def twin_scores)
    ultimately show ?thesis using D that [of "([(?d1, ?r6), (?d2, ?r5)], [], [])"]
        that [of "([(?d2, ?r5), (?d1, ?r6)], [], [])"]
      by auto
  qed
  have big: "2 \<le> length pairs" and cheap: "length pairs = 2 \<longrightarrow> totalCost score pairs \<le> 2"
    using opt c by force+
  have "size (mset (map fst pairs) + mset news) = 2" by (simp only: left) simp
  then have l1: "length pairs + length news = 2" by simp
  have "size (mset (map snd pairs) + mset dbcs) = 2" by (simp only: right) simp
  then have l2: "length pairs + length dbcs = 2" by simp
  from big l1 l2 have "length pairs = 2 \<and> length news = 0 \<and> length dbcs = 0" by linarith
  then have len: "length pairs = 2" and e: "news = []" "dbcs = []" by simp_all
  from len have "length pairs = Suc (Suc 0)" by simp
  then obtain p q where pq: "pairs = [p, q]"
    by (auto simp: length_Suc_conv)
  have f: "(fst p = ?d1 \<and> fst q = ?d2) \<or> (fst p = ?d2 \<and> fst q = ?d1)"
    using left e pq by (intro mset_pair_cases) simp
  have s: "(snd p = ?r5 \<and> snd q = ?r6) \<or> (snd p = ?r6 \<and> snd q = ?r5)"
    using right e pq by (intro mset_pair_cases) simp
  have cost: "score (fst p) (snd p) + score (fst q) (snd q) \<le> 2"
    using cheap len pq by (simp add: totalCost_def split_def)
  have "(p = (?d1, ?r6) \<and> q = (?d2, ?r5)) \<or> (p = (?d2, ?r5) \<and> q = (?d1, ?r6))"
    using f s cost by (cases p; cases q) (auto simp: twin_scores)
  then show ?thesis using e pq by auto
qed

lemma mset_two_cases:
  assumes "mset ys = {#a, b#}"
  shows "ys = [a, b] \<or> ys = [b, a]"
proof -
  have "size (mset ys) = size {#a, b#}" by (simp only: assms)
  then have "length ys = Suc (Suc 0)" by simp
  then obtain x y where ys: "ys = [x, y]"
    by (auto simp: length_Suc_conv)
  then have "{#x, y#} = {#a, b#}" using assms by simp
  from mset_pair_cases [OF this] show ?thesis using ys by auto
qed

text \<open>
  The second invocation exchanges the labels of the two rows under every join that
  meets its contract and every order in which the containers are enumerated.
\<close>

lemma second_pass_any_join:
  assumes n: "New ext text = Inr twinSpec"
    and rp: "rangeOrder (rangePlacementSet ext)"
    and rc: "rangeOrder (rangeContainers ext)"
    and jc: "EqualityJoin [] [] (\<lambda>c. c) dbcKey (HashJoinConnection ext [] [] None dbcKey)"
    and jp: "EqualityJoin [] [] key key (HashJoinPlacement ext [] [] key key)"
    and js: "\<And>D. ScoredMatch D [twinRow 5 [''a'', ''b''], twinRow 6 [''b'', ''c'']] score
                   (Join ext D [twinRow 5 [''a'', ''b''], twinRow 6 [''b'', ''c'']] score)"
  shows "\<exists>cs'. updatePolicy ext (twinView [''a'', ''b''] [''b'', ''c''] cs) Master text =
                 Some (Inr (twinView [''b'', ''c''] [''a'', ''b''] cs'))"
proof -
  let ?v = "twinView [''a'', ''b''] [''b'', ''c''] cs"
  let ?d1 = "twinRow 0 [''b'', ''a'']" and ?d2 = "twinRow 0 [''c'', ''b'']"
  let ?r5 = "twinRow 5 [''a'', ''b'']" and ?r6 = "twinRow 6 [''b'', ''c'']"
  have c: "updateConnections ext ?v twinSpec = ?v"
    using EqualityJoin_empty [OF jc]
    by (simp add: updateConnections_def twinSpec_def SelectFromConnection_def twinView_def)
  have p: "updatePlacements ext ?v twinSpec = Some ?v"
    using EqualityJoin_empty [OF jp] rangeOrder_Nil [OF rp]
    by (simp add: updatePlacements_def twinSpec_def SelectFromConnection_def
          SelectFromPlacement_def toDBPlacements_def placementSet_def
          makeConnectionPlacements_def twinView_def)
  define m where "m = [(1::int, ?d1), (2, ?d2)]"
  define D where "D = map snd (rangeContainers ext m)"
  have "mset (rangeContainers ext m) = mset m"
    using rc by (simp add: rangeOrder_def)
  then have "mset (rangeContainers ext m) = {#(1, ?d1), (2, ?d2)#}"
    by (simp add: m_def)
  then have "rangeContainers ext m = [(1, ?d1), (2, ?d2)]
           \<or> rangeContainers ext m = [(2, ?d2), (1, ?d1)]"
    by (rule mset_two_cases)
  then have D: "D = [?d1, ?d2] \<or> D = [?d2, ?d1]"
    unfolding D_def by (elim disjE) (simp_all only: list.map snd_conv simp_thms)
  have q: "queryContainers ext twinSpec = Inr D"
    unfolding D_def m_def
    by (simp add: queryContainers_def twinSpec_def twinRow_def AList.update.simps)
  obtain pairs news dbcs where j: "Join ext D (SelectFromContainer ?v) score = (pairs, news, dbcs)"
    by (cases "Join ext D (SelectFromContainer ?v) score")
  have rows: "SelectFromContainer ?v = [?r5, ?r6]"
    by (simp add: SelectFromContainer_def twinView_def)
  have "ScoredMatch D [?r5, ?r6] score (pairs, news, dbcs)"
    using js [of D] j rows by simp
  note tm = twin_match [OF D this]
  have e: "news = []" "dbcs = []" using tm by blast+
  have ps: "pairs = [(?d1, ?r6), (?d2, ?r5)] \<or> pairs = [(?d2, ?r5), (?d1, ?r6)]"
    using tm by blast
  have "\<exists>cs'. updateContainers ext ?v twinSpec = Inr (twinView [''b'', ''c''] [''a'', ''b''] cs')"
    using ps
  proof
    assume "pairs = [(?d1, ?r6), (?d2, ?r5)]"
    then have "updateContainers ext ?v twinSpec =
               Inr (twinView [''b'', ''c''] [''a'', ''b'']
                      (cs @ [CommitCall Containers 6, CommitCall Containers 5]))"
      unfolding updateContainers_def q sum.case Let_def j split_conv e
      by (simp add: commitContainerPair_def CommitContainer_def commitRow_def
            writeContainer_def twinRow_def twinView_def)
    then show ?thesis by blast
  next
    assume "pairs = [(?d2, ?r5), (?d1, ?r6)]"
    then have "updateContainers ext ?v twinSpec =
               Inr (twinView [''b'', ''c''] [''a'', ''b'']
                      (cs @ [CommitCall Containers 5, CommitCall Containers 6]))"
      unfolding updateContainers_def q sum.case Let_def j split_conv e
      by (simp add: commitContainerPair_def CommitContainer_def commitRow_def
            writeContainer_def twinRow_def twinView_def)
    then show ?thesis by blast
  qed
  then show ?thesis by (simp add: updatePolicy_def n c p)
qed

subsection \<open>Valid views and runs without panic\<close>












subsection \<open>The second invocation\<close>




























end
